theory Spec2Isabelle
  imports Complex_Main "HOL-Library.Sublist"
begin

section \<open>JavaScript values seen by the route handler\<close>

text \<open>
  The handler of \<^verbatim>\<open>src/app/api/process/route.ts\<close> receives
  \<^verbatim>\<open>await request.json()\<close>, a value of type \<^verbatim>\<open>any\<close>. It is
  modelled as a parsed JSON value; \<open>JUndefined\<close> is the result of reading a property
  that is not there. Strings are ASCII text; numbers are the reals they denote. An object
  is the list of its own properties, each key once.
\<close>

datatype jsval =
    JUndefined
  | JNull
  | JBool bool
  | JNum real
  | JStr string
  | JArr "jsval list"
  | JObj "(string \<times> jsval) list"

text \<open>The result of \<^verbatim>\<open>ToNumber\<close> and of \<^verbatim>\<open>Math.min\<close>; also a media duration.\<close>

datatype jsnum = NaN | NegInf | PosInf | Fin real

text \<open>A thrown \<^verbatim>\<open>Error\<close> object; only its \<^verbatim>\<open>message\<close> is read.\<close>

datatype js_error = JsError (message: string)

text \<open>\<^verbatim>\<open>!x\<close> is true for undefined, null, false, 0 and the empty string.\<close>

fun truthy :: "jsval \<Rightarrow> bool" where
  "truthy JUndefined = False"
| "truthy JNull = False"
| "truthy (JBool b) = b"
| "truthy (JNum x) = (x \<noteq> 0)"
| "truthy (JStr s) = (s \<noteq> [])"
| "truthy (JArr xs) = True"
| "truthy (JObj kvs) = True"

fun nullish :: "jsval \<Rightarrow> bool" where
  "nullish JUndefined = True"
| "nullish JNull = True"
| "nullish v = False"

text \<open>Decimal rendering of an array index, the property key of \<^verbatim>\<open>frames[i]\<close>.\<close>

fun digits_of :: "nat \<Rightarrow> nat \<Rightarrow> string" where
  "digits_of 0 n = []"
| "digits_of (Suc fuel) n =
     (if n < 10 then [char_of (48 + n)]
      else digits_of fuel (n div 10) @ [char_of (48 + n mod 10)])"

definition index_key :: "nat \<Rightarrow> string" where
  "index_key i = digits_of (Suc i) i"

text \<open>
  Reading the property \<open>k\<close> of a value that is neither undefined nor null. The handler
  reads \<^verbatim>\<open>audioDataUrl\<close>, \<^verbatim>\<open>frames\<close>, \<^verbatim>\<open>dataUrl\<close>,
  \<^verbatim>\<open>timestamp\<close> and \<^verbatim>\<open>length\<close>; of these only \<^verbatim>\<open>length\<close>
  exists on strings and arrays, and none on numbers and booleans.
\<close>

fun js_prop :: "jsval \<Rightarrow> string \<Rightarrow> jsval" where
  "js_prop (JObj kvs) k = (case map_of kvs k of None \<Rightarrow> JUndefined | Some v \<Rightarrow> v)"
| "js_prop (JArr xs) k = (if k = ''length'' then JNum (real (length xs)) else JUndefined)"
| "js_prop (JStr s) k = (if k = ''length'' then JNum (real (length s)) else JUndefined)"
| "js_prop v k = JUndefined"

definition cannot_read :: "string \<Rightarrow> js_error" where
  "cannot_read k = JsError (''Cannot read properties of undefined or null (reading '' @ k @ '')'')"

text \<open>\<^verbatim>\<open>v.k\<close>: a \<^verbatim>\<open>TypeError\<close> on undefined and null.\<close>

definition get_prop :: "jsval \<Rightarrow> string \<Rightarrow> js_error + jsval" where
  "get_prop v k = (if nullish v then Inl (cannot_read k) else Inr (js_prop v k))"

text \<open>\<^verbatim>\<open>frames[i]\<close> for a number \<open>i\<close>.\<close>

fun js_index :: "jsval \<Rightarrow> nat \<Rightarrow> jsval" where
  "js_index (JArr xs) i = (if i < length xs then xs ! i else JUndefined)"
| "js_index (JStr s) i = (if i < length s then JStr [s ! i] else JUndefined)"
| "js_index (JObj kvs) i = js_prop (JObj kvs) (index_key i)"
| "js_index v i = JUndefined"

section \<open>The environment of one run\<close>

text \<open>What the speech-to-text service and the vision judge answer is not the handler's.\<close>

text \<open>
  The text of an answer is kept as the list of its UTF-16 code units, since the adapter
  looks at its characters; \<open>units\<close> writes an ASCII text so.
\<close>

type_synonym code_units = "nat list"

definition units :: "string \<Rightarrow> code_units" where
  "units s = map of_char s"

datatype chat_message = ChatMessage (content: "code_units option")

datatype choice = Choice (choice_message: "chat_message option")

datatype chat_completion = ChatCompletion (choices: "choice list")

text \<open>
  \<open>request_json\<close>: what \<^verbatim>\<open>await request.json()\<close> gives, or the error it throws.
  \<open>import_openai k\<close>: the error, if any, of loading and constructing the client in the
  \<open>k\<close>-th adapter call of the run (0 is the transcription, \<open>Suc i\<close> the frame \<open>i\<close>).
  \<open>whisper\<close>: the transcription service on the base64 payload.
  \<open>vision i\<close>: the judge's completion for the image sent in iteration \<open>i\<close>.
  \<open>to_number\<close>: \<^verbatim>\<open>ToNumber\<close> on strings, arrays and objects, which the language
  defines by parsing their text.
  \<open>unicode_upper\<close>: the upper-case mapping of Unicode on a run of code units that are
  all above the ASCII range (a table of some 1400 entries, not written out here).
\<close>

record env =
  request_json :: "js_error + jsval"
  import_openai :: "nat \<Rightarrow> js_error option"
  whisper :: "string \<Rightarrow> js_error + string"
  vision :: "nat \<Rightarrow> jsval \<Rightarrow> js_error + chat_completion"
  to_number :: "jsval \<Rightarrow> jsnum"
  unicode_upper :: "code_units \<Rightarrow> code_units"

section \<open>transcribeAudio\<close>

text \<open>\<^verbatim>\<open>s.split(',')\<close>: the pieces between commas, at least one.\<close>

fun split_comma :: "string \<Rightarrow> string list" where
  "split_comma [] = [[]]"
| "split_comma (c # cs) =
     (if c = CHR '','' then [] # split_comma cs
      else (case split_comma cs of
              [] \<Rightarrow> [[c]]
            | p # ps \<Rightarrow> (c # p) # ps))"

text \<open>
  The body of the \<^verbatim>\<open>try\<close> (lines 13 to 31). A value that is not a string has no
  \<^verbatim>\<open>split\<close>; a string without a comma gives \<^verbatim>\<open>undefined\<close> for the payload,
  which \<^verbatim>\<open>Buffer.from\<close> refuses.
\<close>

definition transcribeAudio_try :: "env \<Rightarrow> jsval \<Rightarrow> js_error + string" where
  "transcribeAudio_try e audioDataUrl =
     (case import_openai e 0 of
        Some err \<Rightarrow> Inl err
      | None \<Rightarrow>
          (case audioDataUrl of
             JStr s \<Rightarrow>
               (case split_comma s of
                  p # base64Audio # ps \<Rightarrow> whisper e base64Audio
                | _ \<Rightarrow> Inl (JsError ''The first argument must be of type string or an instance of Buffer, ArrayBuffer, or Array or an Array-like Object. Received undefined''))
           | _ \<Rightarrow> Inl (JsError ''audioDataUrl.split is not a function'')))"

definition unavailable :: "js_error \<Rightarrow> string" where
  "unavailable err = ''[Transcription unavailable: '' @ message err @ '']''"

definition transcribeAudio :: "env \<Rightarrow> jsval \<Rightarrow> string" where
  "transcribeAudio e audioDataUrl =
     (case transcribeAudio_try e audioDataUrl of
        Inr transcription \<Rightarrow> transcription
      | Inl err \<Rightarrow> unavailable err)"

section \<open>analyzeFrame\<close>

text \<open>
  \<^verbatim>\<open>String.prototype.trim\<close> strips the white space and the line terminators of the
  language from both ends: TAB, LF, VT, FF, CR, SP, NBSP, U+1680, U+2000 to U+200A,
  U+2028, U+2029, U+202F, U+205F, U+3000 and U+FEFF.
\<close>

definition is_space :: "nat \<Rightarrow> bool" where
  "is_space c =
     (c \<in> {9, 10, 11, 12, 13, 32, 160, 5760, 8232, 8233, 8239, 8287, 12288, 65279} \<or>
      (8192 \<le> c \<and> c \<le> 8202))"

definition trim :: "code_units \<Rightarrow> code_units" where
  "trim s = rev (dropWhile is_space (rev (dropWhile is_space s)))"

text \<open>
  \<^verbatim>\<open>String.prototype.toUpperCase\<close> maps every code point by itself, whatever stands
  next to it. On ASCII it turns a to z into A to Z and leaves the rest; a run of code
  units above ASCII (surrogate pairs lie wholly in such a run) is mapped by Unicode's
  table.
\<close>

definition upper_ascii :: "nat \<Rightarrow> nat" where
  "upper_ascii c = (if 97 \<le> c \<and> c \<le> 122 then c - 32 else c)"

function toUpperCase :: "(code_units \<Rightarrow> code_units) \<Rightarrow> code_units \<Rightarrow> code_units" where
  "toUpperCase up [] = []"
| "toUpperCase up (c # cs) =
     (if c < 128 then upper_ascii c # toUpperCase up cs
      else up (c # takeWhile (\<lambda>x. 128 \<le> x) cs) @
           toUpperCase up (dropWhile (\<lambda>x. 128 \<le> x) cs))"
  by pat_completeness auto
termination
  by (relation "measure (\<lambda>(up, s). length s)")
     (auto simp: less_Suc_eq_le length_dropWhile_le)

text \<open>\<^verbatim>\<open>response.choices[0]?.message?.content?.trim().toUpperCase()\<close>\<close>

definition answer_of :: "env \<Rightarrow> chat_completion \<Rightarrow> code_units option" where
  "answer_of e response =
     (case choices response of
        [] \<Rightarrow> None
      | c # cs \<Rightarrow>
          (case choice_message c of
             None \<Rightarrow> None
           | Some m \<Rightarrow>
               (case content m of
                  None \<Rightarrow> None
                | Some s \<Rightarrow> Some (toUpperCase (unicode_upper e) (trim s)))))"

definition analyzeFrame_try :: "env \<Rightarrow> nat \<Rightarrow> jsval \<Rightarrow> js_error + bool" where
  "analyzeFrame_try e i frameDataUrl =
     (case import_openai e (Suc i) of
        Some err \<Rightarrow> Inl err
      | None \<Rightarrow>
          (case vision e i frameDataUrl of
             Inl err \<Rightarrow> Inl err
           | Inr response \<Rightarrow> Inr (answer_of e response = Some (units ''YES''))))"

definition analyzeFrame :: "env \<Rightarrow> nat \<Rightarrow> jsval \<Rightarrow> bool" where
  "analyzeFrame e i frameDataUrl =
     (case analyzeFrame_try e i frameDataUrl of
        Inr b \<Rightarrow> b
      | Inl err \<Rightarrow> False)"

section \<open>The event stream\<close>

text \<open>
  The three shapes of \<^verbatim>\<open>data: <json>\<close> chunks. A progress message is kept as
  the data it is formatted from: \<open>AnalyzingFrame k m\<close> stands for
  \<^verbatim>\<open>Analyzing frame k/m...\<close>.
\<close>

datatype progress_message =
    TranscribingAudio
  | AnalyzingFrames
  | AnalyzingFrame nat jsnum

text \<open>An entry of \<^verbatim>\<open>slides\<close>: \<^verbatim>\<open>{ image, timestamp }\<close>.\<close>

datatype slide = Slide (image: jsval) (slide_timestamp: jsval)

datatype event =
    Progress progress_message
  | Complete string "slide list"
  | Error string

fun is_progress :: "event \<Rightarrow> bool" where
  "is_progress (Progress m) = True"
| "is_progress ev = False"

fun is_terminal :: "event \<Rightarrow> bool" where
  "is_terminal (Progress m) = False"
| "is_terminal ev = True"

text \<open>
  The state of one run: the chunks the stream controller has accepted, oldest first;
  whether the stream has been closed; and the adapter calls made so far, with their
  arguments (for \<open>analyzeFrame\<close> also the loop index).
\<close>

record run_state =
  events :: "event list"
  closed :: bool
  transcribe_calls :: "jsval list"
  analyze_calls :: "(nat \<times> jsval) list"

definition initial :: run_state where
  "initial = \<lparr>events = [], closed = False, transcribe_calls = [], analyze_calls = []\<rparr>"

definition already_closed :: js_error where
  "already_closed = JsError ''Invalid state: Controller is already closed''"

text \<open>
  \<^verbatim>\<open>controller.enqueue\<close> and \<^verbatim>\<open>controller.close\<close> of a
  \<^verbatim>\<open>ReadableStreamDefaultController\<close>, as the Streams Standard has them: each
  throws a \<^verbatim>\<open>TypeError\<close> unless the stream is readable and no close has been
  requested. \<open>closed\<close> is true from the first \<^verbatim>\<open>close\<close>, or from the reader's
  cancel, on. The events are the chunks in the order the controller took them; when the
  reader reads them is not the handler's.
\<close>

definition enqueue :: "event \<Rightarrow> run_state \<Rightarrow> js_error + run_state" where
  "enqueue ev st =
     (if closed st then Inl already_closed
      else Inr (st\<lparr>events := events st @ [ev]\<rparr>))"

definition close :: "run_state \<Rightarrow> js_error + run_state" where
  "close st =
     (if closed st then Inl already_closed
      else Inr (st\<lparr>closed := True\<rparr>))"

text \<open>
  What the reader of the stream does to it when it cancels, as the server does for a caller
  that has disconnected: the stream is closed, and the handler is not told.
\<close>

definition cancel :: "run_state \<Rightarrow> run_state" where
  "cancel st = st\<lparr>closed := True\<rparr>"

text \<open>
  How the stream ends for the caller once the promise of \<^verbatim>\<open>start\<close> has settled, as
  the Streams Standard has it. When \<^verbatim>\<open>start\<close> fulfils, the caller reads the chunks
  to the last and the stream ends closed. When \<^verbatim>\<open>start\<close> rejects, the controller
  is errored with the reason: a stream whose chunks have all been read is closed by then
  and stays so; a stream with \<open>queued\<close> chunks still unread is readable, so its queue
  is reset and it ends errored, and the caller meets the reason in place of those
  chunks.
\<close>

datatype stream_end = StreamClosed | StreamErrored js_error

definition caller_meets :: "nat \<Rightarrow> js_error option \<times> run_state \<Rightarrow> event list \<times> stream_end" where
  "caller_meets queued r =
     (case r of
        (None, st) \<Rightarrow> (events st, StreamClosed)
      | (Some err, st) \<Rightarrow>
          if queued = 0 then (events st, StreamClosed)
          else (take (length (events st) - queued) (events st), StreamErrored err))"

section \<open>The classification loop\<close>

text \<open>\<^verbatim>\<open>ToNumber\<close>, as \<^verbatim>\<open>Math.min\<close> applies it to \<^verbatim>\<open>frames.length\<close>.\<close>

fun to_num :: "env \<Rightarrow> jsval \<Rightarrow> jsnum" where
  "to_num e JUndefined = NaN"
| "to_num e JNull = Fin 0"
| "to_num e (JBool b) = Fin (if b then 1 else 0)"
| "to_num e (JNum x) = Fin x"
| "to_num e v = to_number e v"

text \<open>\<^verbatim>\<open>Math.min(x, c)\<close> for a finite \<open>c\<close>.\<close>

fun math_min :: "jsnum \<Rightarrow> real \<Rightarrow> jsnum" where
  "math_min NaN c = NaN"
| "math_min NegInf c = NegInf"
| "math_min PosInf c = Fin c"
| "math_min (Fin x) c = Fin (min x c)"

text \<open>\<^verbatim>\<open>i < m\<close> for a loop counter \<open>i\<close>.\<close>

fun js_less :: "nat \<Rightarrow> jsnum \<Rightarrow> bool" where
  "js_less i NaN = False"
| "js_less i NegInf = False"
| "js_less i PosInf = True"
| "js_less i (Fin x) = (real i < x)"

text \<open>\<^verbatim>\<open>Math.min(frames.length, 20)\<close>, for the truthy \<open>frames\<close> the loop is run on.\<close>

definition frame_limit :: "env \<Rightarrow> jsval \<Rightarrow> jsnum" where
  "frame_limit e frames = math_min (to_num e (js_prop frames ''length'')) 20"

text \<open>
  Lines 97 to 109, from the test of iteration \<open>i\<close> on. The result is the error that left
  the loop, or the slides at its end. The call of \<open>analyzeFrame\<close> is recorded before its
  answer is used.
\<close>

function analyze_loop ::
  "env \<Rightarrow> jsval \<Rightarrow> nat \<Rightarrow> slide list \<Rightarrow> run_state \<Rightarrow> (js_error + slide list) \<times> run_state" where
  "analyze_loop e frames i slides st =
     (if js_less i (frame_limit e frames) then
        (let frame = js_index frames i in
         case enqueue (Progress (AnalyzingFrame (i + 1) (frame_limit e frames))) st of
           Inl err \<Rightarrow> (Inl err, st)
         | Inr st1 \<Rightarrow>
             (case get_prop frame ''dataUrl'' of
                Inl err \<Rightarrow> (Inl err, st1)
              | Inr url \<Rightarrow>
                  (let st2 = st1\<lparr>analyze_calls := analyze_calls st1 @ [(i, url)]\<rparr>;
                       isSlide = analyzeFrame e i url
                   in if isSlide
                      then analyze_loop e frames (i + 1)
                             (slides @ [Slide url (js_prop frame ''timestamp'')]) st2
                      else analyze_loop e frames (i + 1) slides st2)))
      else (Inr slides, st))"
  by pat_completeness auto
termination
  by (relation "measure (\<lambda>(e, frames, i, slides, st). 20 - i)")
     (auto simp: frame_limit_def elim!: js_less.elims math_min.elims)

section \<open>POST\<close>

text \<open>
  \<^verbatim>\<open>const { audioDataUrl, frames } = body\<close>: null cannot be destructured; any other
  JSON value can, and gives \<^verbatim>\<open>undefined\<close> for a property it does not have.
\<close>

definition destructure :: "jsval \<Rightarrow> js_error + jsval \<times> jsval" where
  "destructure body =
     (if nullish body
      then Inl (JsError ''Cannot destructure property audioDataUrl of body as it is null.'')
      else Inr (js_prop body ''audioDataUrl'', js_prop body ''frames''))"

text \<open>
  The body of the \<^verbatim>\<open>try\<close> (lines 81 to 117), in three parts: the error it
  throws, if any, and the state it leaves. The \<^verbatim>\<open>return\<close> of line 87 and the
  normal end both give \<open>None\<close>. \<open>complete_run\<close> is lines 111 to 117 after the loop,
  \<open>classify_frames\<close> lines 93 to 117, once the transcription is there.
\<close>

definition complete_run ::
  "string \<Rightarrow> (js_error + slide list) \<times> run_state \<Rightarrow> js_error option \<times> run_state" where
  "complete_run transcription r =
     (case r of
        (Inl err, st4) \<Rightarrow> (Some err, st4)
      | (Inr slides, st4) \<Rightarrow>
          (case enqueue (Complete transcription slides) st4 of
             Inl err \<Rightarrow> (Some err, st4)
           | Inr st5 \<Rightarrow> (None, st5)))"

definition classify_frames ::
  "env \<Rightarrow> jsval \<Rightarrow> string \<Rightarrow> run_state \<Rightarrow> js_error option \<times> run_state" where
  "classify_frames e frames transcription st2 =
     (case enqueue (Progress AnalyzingFrames) st2 of
        Inl err \<Rightarrow> (Some err, st2)
      | Inr st3 \<Rightarrow> complete_run transcription (analyze_loop e frames 0 [] st3))"

definition try_block :: "env \<Rightarrow> run_state \<Rightarrow> js_error option \<times> run_state" where
  "try_block e st =
     (case request_json e of
        Inl err \<Rightarrow> (Some err, st)
      | Inr body \<Rightarrow>
          (case destructure body of
             Inl err \<Rightarrow> (Some err, st)
           | Inr (audioDataUrl, frames) \<Rightarrow>
               if \<not> truthy audioDataUrl \<or> \<not> truthy frames then
                 (case enqueue (Error ''Missing audio or frames data'') st of
                    Inl err \<Rightarrow> (Some err, st)
                  | Inr st1 \<Rightarrow>
                      (case close st1 of
                         Inl err \<Rightarrow> (Some err, st1)
                       | Inr st2 \<Rightarrow> (None, st2)))
               else
                 (case enqueue (Progress TranscribingAudio) st of
                    Inl err \<Rightarrow> (Some err, st)
                  | Inr st1 \<Rightarrow>
                      classify_frames e frames (transcribeAudio e audioDataUrl)
                        (st1\<lparr>transcribe_calls := transcribe_calls st1 @ [audioDataUrl]\<rparr>))))"

text \<open>
  The \<^verbatim>\<open>catch\<close> (lines 119 to 124) runs when the \<^verbatim>\<open>try\<close> threw; an error
  thrown inside it propagates.
\<close>

definition catch_block :: "js_error option \<times> run_state \<Rightarrow> js_error option \<times> run_state" where
  "catch_block r =
     (case r of
        (None, st) \<Rightarrow> (None, st)
      | (Some error, st) \<Rightarrow>
          (case enqueue (Error (if message error \<noteq> [] then message error
                                else ''Processing failed'')) st of
             Inl err \<Rightarrow> (Some err, st)
           | Inr st1 \<Rightarrow> (None, st1)))"

text \<open>
  The \<^verbatim>\<open>finally\<close> (lines 125 to 127) always runs; an error thrown by its
  \<^verbatim>\<open>close\<close> replaces a pending one.
\<close>

definition finally_block :: "js_error option \<times> run_state \<Rightarrow> js_error option \<times> run_state" where
  "finally_block r =
     (case r of
        (pending, st) \<Rightarrow>
          (case close st of
             Inl err \<Rightarrow> (Some err, st)
           | Inr st1 \<Rightarrow> (pending, st1)))"

text \<open>
  One run of the \<^verbatim>\<open>start\<close> callback of the response stream: the error that escapes
  it, if any, and the final state.
\<close>

definition POST :: "env \<Rightarrow> js_error option \<times> run_state" where
  "POST e = finally_block (catch_block (try_block e initial))"

section \<open>The frame sampler of the page\<close>

text \<open>
  \<^verbatim>\<open>extractFramesFromVideo\<close> of \<^verbatim>\<open>src/app/page.tsx\<close>. The browser's part:
  whether the canvas has a 2d context; the duration read once the metadata has loaded, or
  the error event that came instead; and what a seek to a time leads to: the
  \<^verbatim>\<open>seeked\<close> event with the PNG data URL the canvas then gives, an error event, or
  nothing at all. The duration is the one of the loaded file and stays what it is while
  the frames are taken.
\<close>

record VideoFrame =
  timestamp :: real
  dataUrl :: string

datatype seek_outcome = Seeked string | Failed js_error | Hangs

record video =
  canvas_context :: bool
  loadedmetadata :: "js_error + jsnum"
  seek :: "real \<Rightarrow> seek_outcome"

text \<open>\<^verbatim>\<open>currentTime >= video.duration\<close>\<close>

fun js_ge :: "real \<Rightarrow> jsnum \<Rightarrow> bool" where
  "js_ge t NaN = False"
| "js_ge t NegInf = True"
| "js_ge t PosInf = False"
| "js_ge t (Fin d) = (d \<le> t)"

text \<open>
  \<^verbatim>\<open>captureFrame\<close> with the \<^verbatim>\<open>onseeked\<close> handler that calls it again. The
  promise is settled with the frames or with an error, or it stays pending: \<open>None\<close>,
  also when the fuel, which counts the calls of \<^verbatim>\<open>captureFrame\<close>, runs out.
\<close>

fun captureFrame ::
  "nat \<Rightarrow> video \<Rightarrow> jsnum \<Rightarrow> real \<Rightarrow> VideoFrame list \<Rightarrow> (js_error + VideoFrame list) option" where
  "captureFrame 0 v duration currentTime frames = None"
| "captureFrame (Suc fuel) v duration currentTime frames =
     (if js_ge currentTime duration then Some (Inr frames)
      else (case seek v currentTime of
              Seeked url \<Rightarrow>
                captureFrame fuel v duration (currentTime + 5)
                  (frames @ [\<lparr>timestamp = real_of_int \<lfloor>currentTime\<rfloor>, dataUrl = url\<rparr>])
            | Failed err \<Rightarrow> Some (Inl err)
            | Hangs \<Rightarrow> None))"

definition extractFramesFromVideo ::
  "nat \<Rightarrow> video \<Rightarrow> (js_error + VideoFrame list) option" where
  "extractFramesFromVideo fuel v =
     (if \<not> canvas_context v then Some (Inl (JsError ''Canvas not supported''))
      else (case loadedmetadata v of
              Inl err \<Rightarrow> Some (Inl err)
            | Inr duration \<Rightarrow> captureFrame fuel v duration 0 []))"

section \<open>The audio extractor of the page\<close>

text \<open>
  \<^verbatim>\<open>extractAudioFromVideo\<close> of \<^verbatim>\<open>page.tsx\<close>, from the point where the
  recorder has been started and \<^verbatim>\<open>play()\<close> has resolved (lines 58 and 59). Two
  signals can follow, in either order: the \<^verbatim>\<open>ended\<close> event of the video and the
  timer set to the duration plus one second.
\<close>

datatype recording_state = Inactive | Recording

datatype signal = Ended | Timer

datatype settlement = Resolved "string option" | Rejected js_error

text \<open>
  The browser's part: what \<^verbatim>\<open>MediaRecorder.stop()\<close> does on a recorder that is
  inactive, which is to return (\<open>None\<close>) or to throw an \<^verbatim>\<open>InvalidStateError\<close>
  (\<open>Some\<close>), depending on the version of the MediaStream Recording specification the
  browser follows; the data the recorder has gathered when it is stopped; and what
  \<^verbatim>\<open>FileReader.readAsDataURL\<close> makes of the blob of the chunks.
\<close>

record browser =
  stop_inactive :: "js_error option"
  recorded :: string
  readAsDataURL :: "string list \<Rightarrow> js_error + string"

text \<open>
  The state of one extraction: the state of the recorder; \<^verbatim>\<open>audioChunks\<close>; the
  blobs built on line 51, oldest first; how the returned promise has settled, if it has;
  the calls of \<^verbatim>\<open>resolve\<close>; whether the video has been paused; and the errors
  that have left a handler uncaught.
\<close>

record extraction =
  recorder :: recording_state
  audioChunks :: "string list"
  payloads :: "string list list"
  promise :: "settlement option"
  resolve_calls :: nat
  video_paused :: bool
  uncaught :: "js_error list"

definition started :: extraction where
  "started = \<lparr>recorder = Recording, audioChunks = [], payloads = [], promise = None,
     resolve_calls = 0, video_paused = False, uncaught = []\<rparr>"

text \<open>
  \<^verbatim>\<open>resolve\<close> and \<^verbatim>\<open>reject\<close> of the promise: the first of them settles it,
  later ones change nothing.
\<close>

definition resolve :: "string option \<Rightarrow> extraction \<Rightarrow> extraction" where
  "resolve v x =
     x\<lparr>promise := (case promise x of None \<Rightarrow> Some (Resolved v) | Some s \<Rightarrow> Some s),
       resolve_calls := Suc (resolve_calls x)\<rparr>"

definition reject :: "js_error \<Rightarrow> extraction \<Rightarrow> extraction" where
  "reject err x =
     x\<lparr>promise := (case promise x of None \<Rightarrow> Some (Rejected err) | Some s \<Rightarrow> Some s)\<rparr>"

text \<open>
  The handlers of lines 46 to 56. When the read fails, \<^verbatim>\<open>onerror\<close> rejects and
  \<^verbatim>\<open>onloadend\<close> then resolves with the \<^verbatim>\<open>null\<close> result.
\<close>

definition ondataavailable :: "string \<Rightarrow> extraction \<Rightarrow> extraction" where
  "ondataavailable data x = x\<lparr>audioChunks := audioChunks x @ [data]\<rparr>"

definition onstop :: "browser \<Rightarrow> extraction \<Rightarrow> extraction" where
  "onstop b x =
     (let audioBlob = audioChunks x;
          x1 = x\<lparr>payloads := payloads x @ [audioBlob]\<rparr>
      in case readAsDataURL b audioBlob of
           Inr result \<Rightarrow> resolve (Some result) x1
         | Inl err \<Rightarrow> resolve None (reject err x1))"

text \<open>
  \<^verbatim>\<open>mediaRecorder.stop()\<close>. On a recording recorder the state becomes inactive at
  once, and the \<^verbatim>\<open>dataavailable\<close> and \<^verbatim>\<open>stop\<close> events follow; they are
  delivered here with the call, since neither handler of the two signals touches what
  they change.
\<close>

definition stop :: "browser \<Rightarrow> extraction \<Rightarrow> js_error option \<times> extraction" where
  "stop b x =
     (case recorder x of
        Inactive \<Rightarrow> (stop_inactive b, x)
      | Recording \<Rightarrow>
          (None, onstop b (ondataavailable (recorded b) (x\<lparr>recorder := Inactive\<rparr>))))"

text \<open>
  The handler of \<^verbatim>\<open>ended\<close> (lines 61 to 63) and the callback of the timer (lines
  66 to 71); \<open>deliver\<close> runs the one that belongs to a signal and keeps an error it
  throws.
\<close>

definition onended :: "browser \<Rightarrow> extraction \<Rightarrow> js_error option \<times> extraction" where
  "onended b x = stop b x"

definition ontimeout :: "browser \<Rightarrow> extraction \<Rightarrow> js_error option \<times> extraction" where
  "ontimeout b x =
     (if recorder x = Recording then
        (case stop b x of
           (Some err, x1) \<Rightarrow> (Some err, x1)
         | (None, x1) \<Rightarrow> (None, x1\<lparr>video_paused := True\<rparr>))
      else (None, x))"

definition deliver :: "browser \<Rightarrow> extraction \<Rightarrow> signal \<Rightarrow> extraction" where
  "deliver b x s =
     (case (case s of Ended \<Rightarrow> onended b x | Timer \<Rightarrow> ontimeout b x) of
        (None, x1) \<Rightarrow> x1
      | (Some err, x1) \<Rightarrow> x1\<lparr>uncaught := uncaught x1 @ [err]\<rparr>)"

definition extractAudioFromVideo :: "browser \<Rightarrow> signal list \<Rightarrow> extraction" where
  "extractAudioFromVideo b sigs = foldl (deliver b) started sigs"

section \<open>Example requests and videos\<close>

text \<open>
  A request with three frames, at 0, 5 and 10 seconds, and a judge that answers yes, no,
  yes; the same request with a transcription service that refuses the key, and with a
  judge that answers the first frame with a padded \<^verbatim>\<open>yes\<close> in lower case, fails on
  the second and answers the third with \<^verbatim>\<open>Yes.\<close>; requests without
  \<^verbatim>\<open>frames\<close>, with an empty object, with an empty array of frames, and with an
  empty \<^verbatim>\<open>audioDataUrl\<close>; the state of a run while its first frame is with the
  judge; two videos, of 12.5 and of 105 seconds, with the frames sampled from them; and
  two browsers, one whose recorder throws when it is stopped twice and one whose
  recorder does not.
\<close>

definition frame_at :: "real \<Rightarrow> string \<Rightarrow> jsval" where
  "frame_at t url = JObj [(''timestamp'', JNum t), (''dataUrl'', JStr url)]"

definition example_frames :: "jsval list" where
  "example_frames = [frame_at 0 ''data:image/png;base64,AAAA'',
                     frame_at 5 ''data:image/png;base64,BBBB'',
                     frame_at 10 ''data:image/png;base64,CCCC'']"

definition example_body :: jsval where
  "example_body = JObj [(''audioDataUrl'', JStr ''data:audio/webm;base64,QUJD''),
                        (''frames'', JArr example_frames)]"

definition reply :: "code_units \<Rightarrow> chat_completion" where
  "reply s = ChatCompletion [Choice (Some (ChatMessage (Some s)))]"

definition example_env :: env where
  "example_env =
     \<lparr>request_json = Inr example_body,
      import_openai = (\<lambda>k. None),
      whisper = (\<lambda>base64Audio. Inr ''hello''),
      vision = (\<lambda>i url. Inr (reply (if i = 1 then units ''NO'' else units '' yes''))),
      to_number = (\<lambda>v. NaN),
      unicode_upper = (\<lambda>s. s)\<rparr>"

definition unauthorized_env :: env where
  "unauthorized_env =
     example_env\<lparr>whisper := (\<lambda>base64Audio. Inl (JsError ''401 Incorrect API key provided''))\<rparr>"

definition flaky_env :: env where
  "flaky_env =
     example_env\<lparr>vision := (\<lambda>i url.
        if i = 0 then Inr (reply ([160] @ units '' yes'' @ [10]))
        else if i = 1 then Inl (JsError ''429 Rate limit reached'')
        else Inr (reply (units ''Yes.'')))\<rparr>"

definition no_frames_env :: env where
  "no_frames_env =
     example_env\<lparr>request_json :=
       Inr (JObj [(''audioDataUrl'', JStr ''data:audio/webm;base64,QUJD'')])\<rparr>"

definition empty_body_env :: env where
  "empty_body_env = example_env\<lparr>request_json := Inr (JObj [])\<rparr>"

definition empty_frames_env :: env where
  "empty_frames_env =
     example_env\<lparr>request_json :=
       Inr (JObj [(''audioDataUrl'', JStr ''data:audio/webm;base64,QUJD''),
                  (''frames'', JArr [])])\<rparr>"

definition empty_audio_env :: env where
  "empty_audio_env =
     example_env\<lparr>request_json :=
       Inr (JObj [(''audioDataUrl'', JStr []), (''frames'', JArr example_frames)])\<rparr>"

definition in_flight :: run_state where
  "in_flight =
     \<lparr>events = [Progress TranscribingAudio, Progress AnalyzingFrames,
                Progress (AnalyzingFrame 1 (Fin 3))],
      closed = False,
      transcribe_calls = [JStr ''data:audio/webm;base64,QUJD''],
      analyze_calls = [(0, JStr ''data:image/png;base64,AAAA'')]\<rparr>"

definition short_video :: video where
  "short_video =
     \<lparr>canvas_context = True,
      loadedmetadata = Inr (Fin 12.5),
      seek = (\<lambda>t. Seeked ''data:image/png;base64,AAAA'')\<rparr>"

definition short_frames :: "VideoFrame list" where
  "short_frames =
     map (\<lambda>k. \<lparr>timestamp = 5 * real k, dataUrl = ''data:image/png;base64,AAAA''\<rparr>) [0..<3]"

definition long_video :: video where
  "long_video =
     \<lparr>canvas_context = True,
      loadedmetadata = Inr (Fin 105),
      seek = (\<lambda>t. Seeked ''data:image/png;base64,AAAA'')\<rparr>"

definition long_frames :: "VideoFrame list" where
  "long_frames =
     map (\<lambda>k. \<lparr>timestamp = 5 * real k, dataUrl = ''data:image/png;base64,AAAA''\<rparr>) [0..<21]"

definition invalid_state :: js_error where
  "invalid_state = JsError ''InvalidStateError: The MediaRecorder's state is inactive.''"

definition data_url :: "string list \<Rightarrow> js_error + string" where
  "data_url chunks = Inr (''data:audio/webm;base64,'' @ concat chunks)"

definition throwing_browser :: browser where
  "throwing_browser =
     \<lparr>stop_inactive = Some invalid_state, recorded = ''QUJD'', readAsDataURL = data_url\<rparr>"

definition silent_browser :: browser where
  "silent_browser = throwing_browser\<lparr>stop_inactive := None\<rparr>"

section \<open>The loop, step by step\<close>

declare analyze_loop.simps [simp del]

lemma frame_limit_array: "frame_limit e (JArr fs) = Fin (real (min (length fs) 20))"
  by (simp add: frame_limit_def min_def)

lemma analyze_loop_done:
  "\<not> js_less i (frame_limit e frames) \<Longrightarrow> analyze_loop e frames i slides st = (Inr slides, st)"
  by (subst analyze_loop.simps) simp

lemma analyze_loop_closed:
  "closed st \<Longrightarrow> js_less i (frame_limit e frames) \<Longrightarrow>
   analyze_loop e frames i slides st = (Inl already_closed, st)"
  by (subst analyze_loop.simps) (simp add: enqueue_def)

lemma analyze_loop_throw:
  "\<not> closed st \<Longrightarrow> js_less i (frame_limit e frames) \<Longrightarrow> nullish (js_index frames i) \<Longrightarrow>
   analyze_loop e frames i slides st =
     (Inl (cannot_read ''dataUrl''),
      st\<lparr>events := events st @ [Progress (AnalyzingFrame (i + 1) (frame_limit e frames))]\<rparr>)"
  by (subst analyze_loop.simps) (simp add: enqueue_def get_prop_def)

lemma analyze_loop_step:
  "\<not> closed st \<Longrightarrow> js_less i (frame_limit e frames) \<Longrightarrow> \<not> nullish (js_index frames i) \<Longrightarrow>
   analyze_loop e frames i slides st =
     analyze_loop e frames (Suc i)
       (if analyzeFrame e i (js_prop (js_index frames i) ''dataUrl'')
        then slides @ [Slide (js_prop (js_index frames i) ''dataUrl'')
                             (js_prop (js_index frames i) ''timestamp'')]
        else slides)
       (st\<lparr>events := events st @ [Progress (AnalyzingFrame (i + 1) (frame_limit e frames))],
           analyze_calls := analyze_calls st @ [(i, js_prop (js_index frames i) ''dataUrl'')]\<rparr>)"
  by (subst analyze_loop.simps) (simp add: enqueue_def get_prop_def Let_def)

lemma analyze_loop_shape:
  "\<exists>ps. events (snd (analyze_loop e frames i slides st)) = events st @ ps \<and>
        list_all is_progress ps \<and>
        closed (snd (analyze_loop e frames i slides st)) = closed st \<and>
        transcribe_calls (snd (analyze_loop e frames i slides st)) = transcribe_calls st"
proof (induction "20 - i" arbitrary: i slides st)
  case 0
  then have "\<not> js_less i (frame_limit e frames)"
    by (cases "to_num e (js_prop frames ''length'')") (auto simp: frame_limit_def)
  then show ?case by (simp add: analyze_loop_done)
next
  case (Suc k)
  consider (fin) "\<not> js_less i (frame_limit e frames)"
    | (shut) "js_less i (frame_limit e frames)" "closed st"
    | (throw) "js_less i (frame_limit e frames)" "\<not> closed st" "nullish (js_index frames i)"
    | (step) "js_less i (frame_limit e frames)" "\<not> closed st" "\<not> nullish (js_index frames i)"
    by blast
  then show ?case
  proof cases
    case fin
    then show ?thesis by (simp add: analyze_loop_done)
  next
    case shut
    then show ?thesis by (simp add: analyze_loop_closed)
  next
    case throw
    then show ?thesis by (simp add: analyze_loop_throw)
  next
    case step
    let ?sl = "if analyzeFrame e i (js_prop (js_index frames i) ''dataUrl'')
        then slides @ [Slide (js_prop (js_index frames i) ''dataUrl'')
                             (js_prop (js_index frames i) ''timestamp'')]
        else slides"
    let ?st = "st\<lparr>events := events st @ [Progress (AnalyzingFrame (i + 1) (frame_limit e frames))],
           analyze_calls := analyze_calls st @ [(i, js_prop (js_index frames i) ''dataUrl'')]\<rparr>"
    from Suc.hyps(2) have "k = 20 - Suc i" by simp
    from Suc.hyps(1)[OF this, of ?sl ?st]
    obtain ps where ps: "events (snd (analyze_loop e frames (Suc i) ?sl ?st)) = events ?st @ ps"
      "list_all is_progress ps"
      "closed (snd (analyze_loop e frames (Suc i) ?sl ?st)) = closed ?st"
      "transcribe_calls (snd (analyze_loop e frames (Suc i) ?sl ?st)) = transcribe_calls ?st"
      by blast
    have eq: "analyze_loop e frames i slides st = analyze_loop e frames (Suc i) ?sl ?st"
      by (rule analyze_loop_step[OF step(2) step(1) step(3)])
    show ?thesis
      unfolding eq using ps
      by (intro exI[of _ "Progress (AnalyzingFrame (i + 1) (frame_limit e frames)) # ps"]) simp
  qed
qed

lemma analyze_loop_calls:
  "\<exists>cs. analyze_calls (snd (analyze_loop e frames i slides st)) = analyze_calls st @ cs \<and>
     length cs \<le> 20 - i \<and> (\<forall>c\<in>set cs. i \<le> fst c \<and> fst c < 20)"
proof (induction "20 - i" arbitrary: i slides st)
  case 0
  then have "\<not> js_less i (frame_limit e frames)"
    by (cases "to_num e (js_prop frames ''length'')") (auto simp: frame_limit_def)
  then show ?case by (simp add: analyze_loop_done)
next
  case (Suc k)
  consider (fin) "\<not> js_less i (frame_limit e frames)"
    | (shut) "js_less i (frame_limit e frames)" "closed st"
    | (throw) "js_less i (frame_limit e frames)" "\<not> closed st" "nullish (js_index frames i)"
    | (step) "js_less i (frame_limit e frames)" "\<not> closed st" "\<not> nullish (js_index frames i)"
    by blast
  then show ?case
  proof cases
    case fin
    then show ?thesis by (simp add: analyze_loop_done)
  next
    case shut
    then show ?thesis by (simp add: analyze_loop_closed)
  next
    case throw
    then show ?thesis by (simp add: analyze_loop_throw)
  next
    case step
    let ?sl = "if analyzeFrame e i (js_prop (js_index frames i) ''dataUrl'')
        then slides @ [Slide (js_prop (js_index frames i) ''dataUrl'')
                             (js_prop (js_index frames i) ''timestamp'')]
        else slides"
    let ?st = "st\<lparr>events := events st @ [Progress (AnalyzingFrame (i + 1) (frame_limit e frames))],
           analyze_calls := analyze_calls st @ [(i, js_prop (js_index frames i) ''dataUrl'')]\<rparr>"
    from Suc.hyps(2) have k: "k = 20 - Suc i" and i: "i < 20" by simp_all
    from Suc.hyps(1)[OF k, of ?sl ?st]
    obtain cs where cs: "analyze_calls (snd (analyze_loop e frames (Suc i) ?sl ?st)) = analyze_calls ?st @ cs"
      "length cs \<le> 20 - Suc i" "\<forall>c\<in>set cs. Suc i \<le> fst c \<and> fst c < 20"
      by blast
    have eq: "analyze_loop e frames i slides st = analyze_loop e frames (Suc i) ?sl ?st"
      by (rule analyze_loop_step[OF step(2) step(1) step(3)])
    show ?thesis
      unfolding eq using cs i
      by (intro exI[of _ "(i, js_prop (js_index frames i) ''dataUrl'') # cs"]) auto
  qed
qed

lemma analyze_loop_array:
  "n = min (length fs) 20 \<Longrightarrow> \<not> closed st \<Longrightarrow>
   \<forall>j. i \<le> j \<and> j < n \<longrightarrow> \<not> nullish (fs ! j) \<Longrightarrow>
   analyze_loop e (JArr fs) i slides st =
     (Inr (slides @
           map (\<lambda>j. Slide (js_prop (fs ! j) ''dataUrl'') (js_prop (fs ! j) ''timestamp''))
             (filter (\<lambda>j. analyzeFrame e j (js_prop (fs ! j) ''dataUrl'')) [i..<n])),
      st\<lparr>events := events st @
             map (\<lambda>j. Progress (AnalyzingFrame (j + 1) (Fin (real n)))) [i..<n],
         analyze_calls := analyze_calls st @
             map (\<lambda>j. (j, js_prop (fs ! j) ''dataUrl'')) [i..<n]\<rparr>)"
proof (induction "n - i" arbitrary: i slides st)
  case 0
  then have "\<not> js_less i (frame_limit e (JArr fs))"
    by (simp add: frame_limit_array del: min_less_iff_conj)
  moreover from 0 have "n \<le> i" by simp
  ultimately show ?case by (simp add: analyze_loop_done)
next
  case (Suc k)
  from Suc.hyps(2) have lt: "i < n" by simp
  then have test: "js_less i (frame_limit e (JArr fs))"
    using Suc.prems(1) by (simp add: frame_limit_array)
  from lt Suc.prems(1) have len: "i < length fs" by simp
  with lt Suc.prems(3) have nn: "\<not> nullish (js_index (JArr fs) i)" by simp
  from len have idx: "js_index (JArr fs) i = fs ! i" by simp
  from Suc.hyps(2) have k: "k = n - Suc i" by simp
  have upt: "[i..<n] = i # [Suc i..<n]"
    using lt by (simp add: upt_conv_Cons)
  have rest: "\<forall>j. Suc i \<le> j \<and> j < n \<longrightarrow> \<not> nullish (fs ! j)"
    using Suc.prems(3) by simp
  have lim: "frame_limit e (JArr fs) = Fin (real n)"
    using Suc.prems(1) by (simp add: frame_limit_array)
  show ?case
    unfolding analyze_loop_step[OF Suc.prems(2) test nn] idx lim
    by (subst Suc.hyps(1)[OF k Suc.prems(1) _ rest]) (simp_all add: Suc.prems(2) upt)
qed

section \<open>Leaving the handler\<close>

text \<open>
  What the \<^verbatim>\<open>catch\<close> and the \<^verbatim>\<open>finally\<close> make of the end of the \<^verbatim>\<open>try\<close>:
  on an open stream an error becomes the error event and the stream is closed; on a closed
  stream the \<^verbatim>\<open>close\<close> of the \<^verbatim>\<open>finally\<close> throws, and the state stays as it is.
  A request that fails the validation is closed on line 86 and a second time in the
  \<^verbatim>\<open>finally\<close>, so the \<^verbatim>\<open>start\<close> callback ends with that error.
\<close>

lemma exit_open_thrown:
  "\<not> closed st \<Longrightarrow> finally_block (catch_block (Some err, st)) =
     (None, st\<lparr>events := events st @ [Error (if message err \<noteq> [] then message err else ''Processing failed'')],
               closed := True\<rparr>)"
  by (simp add: finally_block_def catch_block_def enqueue_def close_def)

lemma exit_open_normal:
  "\<not> closed st \<Longrightarrow> finally_block (catch_block (None, st)) = (None, st\<lparr>closed := True\<rparr>)"
  by (simp add: finally_block_def catch_block_def close_def)

lemma exit_closed:
  "closed st \<Longrightarrow> finally_block (catch_block (r, st)) = (Some already_closed, st)"
  by (cases r) (simp_all add: finally_block_def catch_block_def close_def enqueue_def)

lemma closed_stream_stops:
  assumes "closed st"
  shows "finally_block (catch_block (complete_run tr (analyze_loop e frames i slides st))) =
           (Some already_closed, st)"
    and "finally_block (catch_block (classify_frames e frames tr st)) = (Some already_closed, st)"
    and "finally_block (catch_block (try_block e st)) = (Some already_closed, st)"
proof -
  have "snd (analyze_loop e frames i slides st) = st"
    using assms by (cases "js_less i (frame_limit e frames)")
      (simp_all add: analyze_loop_closed analyze_loop_done)
  then obtain r where "analyze_loop e frames i slides st = (r, st)"
    by (cases "analyze_loop e frames i slides st") simp
  then have "snd (complete_run tr (analyze_loop e frames i slides st)) = st"
    using assms by (cases r) (simp_all add: complete_run_def enqueue_def)
  then show "finally_block (catch_block (complete_run tr (analyze_loop e frames i slides st))) =
           (Some already_closed, st)"
    using assms exit_closed
    by (cases "complete_run tr (analyze_loop e frames i slides st)") simp
  have "classify_frames e frames tr st = (Some already_closed, st)"
    using assms by (simp add: classify_frames_def enqueue_def)
  then show "finally_block (catch_block (classify_frames e frames tr st)) = (Some already_closed, st)"
    using assms by (simp add: exit_closed)
  have "snd (try_block e st) = st"
    using assms
    by (auto simp: try_block_def enqueue_def split: sum.splits prod.splits)
  then show "finally_block (catch_block (try_block e st)) = (Some already_closed, st)"
    using assms exit_closed by (cases "try_block e st") simp
qed

lemma POST_valid_array:
  assumes "request_json e = Inr body" and "\<not> nullish body"
    and "truthy (js_prop body ''audioDataUrl'')"
    and "js_prop body ''frames'' = JArr fs"
    and "\<forall>j. j < min (length fs) 20 \<longrightarrow> \<not> nullish (fs ! j)"
  shows "POST e =
     (None,
      \<lparr>events = [Progress TranscribingAudio, Progress AnalyzingFrames] @
           map (\<lambda>j. Progress (AnalyzingFrame (j + 1) (Fin (real (min (length fs) 20)))))
             [0..<min (length fs) 20] @
           [Complete (transcribeAudio e (js_prop body ''audioDataUrl''))
              (map (\<lambda>j. Slide (js_prop (fs ! j) ''dataUrl'') (js_prop (fs ! j) ''timestamp''))
                 (filter (\<lambda>j. analyzeFrame e j (js_prop (fs ! j) ''dataUrl''))
                    [0..<min (length fs) 20]))],
        closed = True,
        transcribe_calls = [js_prop body ''audioDataUrl''],
        analyze_calls = map (\<lambda>j. (j, js_prop (fs ! j) ''dataUrl'')) [0..<min (length fs) 20]\<rparr>)"
proof -
  let ?st3 = "\<lparr>events = [Progress TranscribingAudio, Progress AnalyzingFrames], closed = False,
      transcribe_calls = [js_prop body ''audioDataUrl''], analyze_calls = []\<rparr>"
  have nc: "\<not> closed ?st3" by simp
  have nn: "\<forall>j. 0 \<le> j \<and> j < min (length fs) 20 \<longrightarrow> \<not> nullish (fs ! j)"
    using assms(5) by simp
  note loop = analyze_loop_array[OF refl nc nn, of e "[]"]
  have "try_block e initial = complete_run (transcribeAudio e (js_prop body ''audioDataUrl''))
          (analyze_loop e (JArr fs) 0 [] ?st3)"
    using assms(1-4)
    by (simp add: try_block_def destructure_def enqueue_def initial_def classify_frames_def)
  then show ?thesis
    unfolding POST_def loop
    by (simp add: complete_run_def enqueue_def exit_open_normal)
qed

lemma missing_input_closes_twice:
  assumes "request_json e = Inr body" and "\<not> nullish body"
    and "\<not> truthy (js_prop body ''audioDataUrl'') \<or> \<not> truthy (js_prop body ''frames'')"
  shows "POST e = (Some already_closed,
           \<lparr>events = [Error ''Missing audio or frames data''], closed = True,
            transcribe_calls = [], analyze_calls = []\<rparr>)"
proof -
  have "try_block e initial =
      (None, initial\<lparr>events := [Error ''Missing audio or frames data''], closed := True\<rparr>)"
    using assms
    by (auto simp: try_block_def destructure_def enqueue_def close_def initial_def)
  then show ?thesis
    by (simp add: POST_def exit_closed initial_def)
qed

lemma nullish_take:
  assumes "\<forall>f\<in>set (take 20 fs). \<not> nullish f"
  shows "\<forall>j. j < min (length fs) 20 \<longrightarrow> \<not> nullish (fs ! j)"
proof (intro allI impI)
  fix j assume j: "j < min (length fs) 20"
  then have "take 20 fs ! j \<in> set (take 20 fs)"
    by (intro nth_mem) simp
  moreover from j have "take 20 fs ! j = fs ! j"
    by simp
  ultimately show "\<not> nullish (fs ! j)"
    using assms by auto
qed

lemma map_nth_take: "n \<le> length xs \<Longrightarrow> map (\<lambda>j. g (xs ! j)) [0..<n] = map g (take n xs)"
  by (induction n) (simp_all add: take_Suc_conv_app_nth)

lemma classify_frames_exit:
  assumes "\<not> closed st"
  shows "\<exists>ps t. events (snd (finally_block (catch_block (classify_frames e frames tr st)))) =
            events st @ ps @ [t] \<and>
          list_all is_progress ps \<and> is_terminal t \<and>
          closed (snd (finally_block (catch_block (classify_frames e frames tr st)))) \<and>
          fst (finally_block (catch_block (classify_frames e frames tr st))) = None"
proof -
  let ?st3 = "st\<lparr>events := events st @ [Progress AnalyzingFrames]\<rparr>"
  obtain r st4 where loop: "analyze_loop e frames 0 [] ?st3 = (r, st4)"
    by (cases "analyze_loop e frames 0 [] ?st3")
  from analyze_loop_shape[of e frames 0 "[]" ?st3] loop assms
  obtain ps where ps: "events st4 = events st @ Progress AnalyzingFrames # ps"
    "list_all is_progress ps" "\<not> closed st4"
    by auto
  have cf: "classify_frames e frames tr st = complete_run tr (r, st4)"
    using assms loop by (simp add: classify_frames_def enqueue_def)
  show ?thesis
  proof (cases r)
    case (Inl err)
    then have "finally_block (catch_block (classify_frames e frames tr st)) =
        (None, st4\<lparr>events := events st4 @ [Error (if message err \<noteq> [] then message err else ''Processing failed'')],
               closed := True\<rparr>)"
      using ps(3) by (simp add: cf complete_run_def exit_open_thrown)
    then show ?thesis
      using ps
      by (intro exI[of _ "Progress AnalyzingFrames # ps"]
                exI[of _ "Error (if message err \<noteq> [] then message err else ''Processing failed'')"])
         simp
  next
    case (Inr slides)
    then have "finally_block (catch_block (classify_frames e frames tr st)) =
        (None, st4\<lparr>events := events st4 @ [Complete tr slides], closed := True\<rparr>)"
      using ps(3) by (simp add: cf complete_run_def enqueue_def exit_open_normal)
    then show ?thesis
      using ps
      by (intro exI[of _ "Progress AnalyzingFrames # ps"] exI[of _ "Complete tr slides"]) simp
  qed
qed

lemma POST_shape:
  "\<exists>ps t. events (snd (POST e)) = ps @ [t] \<and> list_all is_progress ps \<and> is_terminal t \<and>
     closed (snd (POST e))"
proof -
  have open0: "\<not> closed initial" by (simp add: initial_def)
  have ev0: "events initial = []" by (simp add: initial_def)
  let ?thrown = "\<lambda>err. Error (if message err \<noteq> [] then message err else ''Processing failed'')"
  have thrown: "try_block e initial = (Some err, initial) \<Longrightarrow> ?thesis" for err
    unfolding POST_def
    by (intro exI[of _ "[]"] exI[of _ "?thrown err"]) (simp add: exit_open_thrown open0 ev0)
  show ?thesis
  proof (cases "request_json e")
    case (Inl err)
    then have "try_block e initial = (Some err, initial)"
      by (simp add: try_block_def)
    then show ?thesis by (rule thrown)
  next
    case (Inr body)
    show ?thesis
    proof (cases "nullish body")
      case True
      then have "try_block e initial =
          (Some (JsError ''Cannot destructure property audioDataUrl of body as it is null.''), initial)"
        using Inr by (simp add: try_block_def destructure_def)
      then show ?thesis by (rule thrown)
    next
      case False
      let ?a = "js_prop body ''audioDataUrl''" and ?f = "js_prop body ''frames''"
      show ?thesis
      proof (cases "truthy ?a \<and> truthy ?f")
        case invalid: False
        then have "try_block e initial =
            (None, initial\<lparr>events := [Error ''Missing audio or frames data''], closed := True\<rparr>)"
          using Inr False
          by (auto simp: try_block_def destructure_def enqueue_def close_def open0 ev0)
        then show ?thesis
          unfolding POST_def
          by (intro exI[of _ "[]"] exI[of _ "Error ''Missing audio or frames data''"])
             (simp add: exit_closed)
      next
        case True
        let ?st2 = "initial\<lparr>events := [Progress TranscribingAudio], transcribe_calls := [?a]\<rparr>"
        have tb: "try_block e initial = classify_frames e ?f (transcribeAudio e ?a) ?st2"
          using Inr False True
          by (simp add: try_block_def destructure_def enqueue_def open0 ev0 initial_def)
        have "\<not> closed ?st2" by (simp add: open0)
        from classify_frames_exit[OF this, of e ?f "transcribeAudio e ?a"]
        obtain ps t where
          "events (snd (POST e)) = events ?st2 @ ps @ [t]" "list_all is_progress ps"
          "is_terminal t" "closed (snd (POST e))"
          unfolding POST_def tb by blast
        then show ?thesis
          by (intro exI[of _ "Progress TranscribingAudio # ps"] exI[of _ t]) simp
      qed
    qed
  qed
qed

lemma filter_terminal_progress: "list_all is_progress ps \<Longrightarrow> filter is_terminal ps = []"
  by (induction ps) (auto elim: is_progress.elims)

text \<open>
  Whatever the request, \<open>analyzeFrame\<close> is called at most twenty times in a run; a
  valid request with twenty frames or more has it called exactly twenty times, on the
  indices 0 to 19.
\<close>

lemma exit_calls:
  "analyze_calls (snd (finally_block (catch_block r))) = analyze_calls (snd r)"
  by (cases r)
     (auto simp: finally_block_def catch_block_def enqueue_def close_def
           split: option.splits sum.splits if_splits)

lemma complete_run_calls:
  "analyze_calls (snd (complete_run tr r)) = analyze_calls (snd r)"
  by (cases r) (auto simp: complete_run_def enqueue_def split: sum.splits if_splits)

lemma classify_frames_calls:
  "\<exists>cs. analyze_calls (snd (classify_frames e frames tr st)) = analyze_calls st @ cs \<and>
     length cs \<le> 20"
proof (cases "closed st")
  case True
  then show ?thesis by (simp add: classify_frames_def enqueue_def)
next
  case False
  let ?st3 = "st\<lparr>events := events st @ [Progress AnalyzingFrames]\<rparr>"
  from analyze_loop_calls[of e frames 0 "[]" ?st3]
  obtain cs where "analyze_calls (snd (analyze_loop e frames 0 [] ?st3)) = analyze_calls st @ cs"
    "length cs \<le> 20"
    by auto
  then show ?thesis
    using False by (simp add: classify_frames_def enqueue_def complete_run_calls)
qed

lemma at_most_twenty_calls: "length (analyze_calls (snd (POST e))) \<le> 20"
proof -
  have "length (analyze_calls (snd (try_block e initial))) \<le> 20"
  proof (cases "request_json e")
    case (Inl err)
    then show ?thesis by (simp add: try_block_def initial_def)
  next
    case (Inr body)
    show ?thesis
    proof (cases "destructure body")
      case (Inl err)
      with Inr show ?thesis by (simp add: try_block_def initial_def)
    next
      case inr: (Inr p)
      obtain a f where p: "p = (a, f)" by (cases p)
      show ?thesis
      proof (cases "truthy a \<and> truthy f")
        case False
        with Inr inr p show ?thesis
          by (auto simp: try_block_def initial_def enqueue_def close_def)
      next
        case True
        let ?st2 = "initial\<lparr>events := [Progress TranscribingAudio], transcribe_calls := [a]\<rparr>"
        have "try_block e initial = classify_frames e f (transcribeAudio e a) ?st2"
          using Inr inr p True by (simp add: try_block_def enqueue_def initial_def)
        moreover from classify_frames_calls[of e f "transcribeAudio e a" ?st2]
        have "length (analyze_calls (snd (classify_frames e f (transcribeAudio e a) ?st2))) \<le> 20"
          by (auto simp: initial_def)
        ultimately show ?thesis by simp
      qed
    qed
  qed
  then show ?thesis
    by (simp add: POST_def exit_calls)
qed

lemma more_than_twenty_frames:
  assumes "request_json e = Inr body" and "\<not> nullish body"
    and "truthy (js_prop body ''audioDataUrl'')"
    and "js_prop body ''frames'' = JArr fs"
    and "\<forall>f\<in>set (take 20 fs). \<not> nullish f"
    and "20 \<le> length fs"
  shows "length (analyze_calls (snd (POST e))) = 20 \<and>
         map fst (analyze_calls (snd (POST e))) = [0..<20]"
proof -
  from assms(5) have nn: "\<forall>j. j < min (length fs) 20 \<longrightarrow> \<not> nullish (fs ! j)"
    by (rule nullish_take)
  from assms(6) have n: "min (length fs) 20 = 20"
    by simp
  show ?thesis
    unfolding POST_valid_array[OF assms(1-4) nn] n
    by (simp add: comp_def map_idI)
qed

section \<open>The example runs\<close>

lemma example_accepts:
  "analyzeFrame example_env 0 (JStr ''data:image/png;base64,AAAA'')"
  "\<not> analyzeFrame example_env (Suc 0) (JStr ''data:image/png;base64,BBBB'')"
  "analyzeFrame example_env 2 (JStr ''data:image/png;base64,CCCC'')"
  by (simp_all add: analyzeFrame_def analyzeFrame_try_def example_env_def reply_def
        answer_of_def trim_def units_def is_space_def upper_ascii_def)

lemma example_hyps:
  "request_json example_env = Inr example_body"
  "\<not> nullish example_body"
  "truthy (js_prop example_body ''audioDataUrl'')"
  "js_prop example_body ''frames'' = JArr example_frames"
  "\<forall>f\<in>set (take 20 example_frames). \<not> nullish f"
  by (simp_all add: example_env_def example_body_def example_frames_def frame_at_def)

lemma example_upt: "[0..<min (length example_frames) 20] = [0, Suc 0, 2]"
  by (simp add: example_frames_def upt_rec)

lemma example_nth:
  "example_frames ! 0 = frame_at 0 ''data:image/png;base64,AAAA''"
  "example_frames ! Suc 0 = frame_at 5 ''data:image/png;base64,BBBB''"
  "example_frames ! 2 = frame_at 10 ''data:image/png;base64,CCCC''"
  by (simp_all add: example_frames_def)

lemma example_run:
  "POST example_env =
     (None,
      \<lparr>events = [Progress TranscribingAudio, Progress AnalyzingFrames,
                 Progress (AnalyzingFrame 1 (Fin 3)), Progress (AnalyzingFrame 2 (Fin 3)),
                 Progress (AnalyzingFrame 3 (Fin 3)),
                 Complete ''hello''
                   [Slide (JStr ''data:image/png;base64,AAAA'') (JNum 0),
                    Slide (JStr ''data:image/png;base64,CCCC'') (JNum 10)]],
       closed = True,
       transcribe_calls = [JStr ''data:audio/webm;base64,QUJD''],
       analyze_calls = [(0, JStr ''data:image/png;base64,AAAA''),
                        (1, JStr ''data:image/png;base64,BBBB''),
                        (2, JStr ''data:image/png;base64,CCCC'')]\<rparr>)"
proof -
  have nn: "\<forall>j. j < min (length example_frames) 20 \<longrightarrow> \<not> nullish (example_frames ! j)"
    using example_hyps(5) by (rule nullish_take)
  have tr: "transcribeAudio example_env (js_prop example_body ''audioDataUrl'') = ''hello''"
    by code_simp
  have a: "js_prop example_body ''audioDataUrl'' = JStr ''data:audio/webm;base64,QUJD''"
    by (simp add: example_body_def)
  have n: "min (length example_frames) 20 = 3"
    by (simp add: example_frames_def)
  show ?thesis
    unfolding POST_valid_array[OF example_hyps(1-4) nn] example_upt tr
    by (simp add: a n example_nth frame_at_def example_accepts)
qed

section \<open>The sampler, step by step\<close>

lemma floor_five: "real_of_int \<lfloor>5 * real m\<rfloor> = 5 * real m"
proof -
  have "5 * real m = real_of_int (int (5 * m))" by simp
  then show ?thesis by (metis floor_of_int)
qed

lemma captureFrame_sound:
  "captureFrame fuel v duration (5 * real m) acc = Some (Inr out) \<Longrightarrow>
   \<exists>new. out = acc @ new \<and>
     map timestamp new = map (\<lambda>k. 5 * real k) [m..<m + length new] \<and>
     (\<forall>k. m \<le> k \<and> k < m + length new \<longrightarrow> \<not> js_ge (5 * real k) duration) \<and>
     js_ge (5 * real (m + length new)) duration"
proof (induction fuel arbitrary: m acc)
  case 0
  then show ?case by simp
next
  case (Suc fuel)
  show ?case
  proof (cases "js_ge (5 * real m) duration")
    case True
    with Suc.prems have "out = acc" by simp
    with True show ?thesis by auto
  next
    case False
    with Suc.prems obtain url where
      sk: "seek v (5 * real m) = Seeked url" and
      rec: "captureFrame fuel v duration (5 * real m + 5)
              (acc @ [\<lparr>timestamp = real_of_int \<lfloor>5 * real m\<rfloor>, dataUrl = url\<rparr>]) = Some (Inr out)"
      by (cases "seek v (5 * real m)") simp_all
    have "5 * real m + 5 = 5 * real (Suc m)" by simp
    with rec have "captureFrame fuel v duration (5 * real (Suc m))
              (acc @ [\<lparr>timestamp = 5 * real m, dataUrl = url\<rparr>]) = Some (Inr out)"
      by (simp only: floor_five)
    from Suc.IH[OF this] obtain new where new:
      "out = (acc @ [\<lparr>timestamp = 5 * real m, dataUrl = url\<rparr>]) @ new"
      "map timestamp new = map (\<lambda>k. 5 * real k) [Suc m..<Suc m + length new]"
      "\<forall>k. Suc m \<le> k \<and> k < Suc m + length new \<longrightarrow> \<not> js_ge (5 * real k) duration"
      "js_ge (5 * real (Suc m + length new)) duration"
      by blast
    let ?new = "\<lparr>timestamp = 5 * real m, dataUrl = url\<rparr> # new"
    have a: "out = acc @ ?new" using new(1) by simp
    have "[m..<m + length ?new] = m # [Suc m..<Suc m + length new]"
      by (subst upt_rec) simp
    then have b: "map timestamp ?new = map (\<lambda>k. 5 * real k) [m..<m + length ?new]"
      using new(2) by (simp only: list.map VideoFrame.simps)
    have c: "\<forall>k. m \<le> k \<and> k < m + length ?new \<longrightarrow> \<not> js_ge (5 * real k) duration"
    proof (intro allI impI)
      fix k assume k: "m \<le> k \<and> k < m + length ?new"
      show "\<not> js_ge (5 * real k) duration"
      proof (cases "k = m")
        case True
        with False show ?thesis by simp
      next
        case ne: False
        with k have "Suc m \<le> k \<and> k < Suc m + length new" by simp
        with new(3) show ?thesis by blast
      qed
    qed
    have d: "js_ge (5 * real (m + length ?new)) duration"
      using new(4) by simp
    from a b c d show ?thesis by blast
  qed
qed

lemma captureFrame_total:
  "\<forall>t. \<exists>url. seek v t = Seeked url \<Longrightarrow> d \<le> 5 * real (m + j) \<Longrightarrow>
   \<exists>out. captureFrame (Suc j) v (Fin d) (5 * real m) acc = Some (Inr out)"
proof (induction j arbitrary: m acc)
  case 0
  then show ?case by simp
next
  case (Suc j)
  show ?case
  proof (cases "d \<le> 5 * real m")
    case True
    then show ?thesis by simp
  next
    case False
    from Suc.prems(1) obtain url where sk: "seek v (5 * real m) = Seeked url" by blast
    have t: "5 * real m + 5 = 5 * real (Suc m)" by simp
    from Suc.prems(2) have "d \<le> 5 * real (Suc m + j)" by simp
    from Suc.IH[OF Suc.prems(1) this] obtain out where
      "captureFrame (Suc j) v (Fin d) (5 * real (Suc m))
         (acc @ [\<lparr>timestamp = real_of_int \<lfloor>5 * real m\<rfloor>, dataUrl = url\<rparr>]) = Some (Inr out)"
      by blast
    then show ?thesis
      using False sk unfolding t[symmetric] by (subst captureFrame.simps) simp
  qed
qed

lemma strictly_increasing_fives: "sorted_wrt (<) (map (\<lambda>k. 5 * real k) [m..<n])"
  by (simp add: sorted_wrt_map sorted_wrt_upt)

lemma frame_count:
  assumes "extractFramesFromVideo fuel v = Some (Inr frames)"
    and "loadedmetadata v = Inr (Fin d)"
  shows "length frames = nat \<lceil>d / 5\<rceil>"
proof -
  from assms have cf: "captureFrame fuel v (Fin d) (5 * real 0) [] = Some (Inr frames)"
    by (auto simp: extractFramesFromVideo_def split: if_splits)
  from captureFrame_sound[OF cf] have
    below: "\<forall>k. k < length frames \<longrightarrow> 5 * real k < d" and
    stop: "d \<le> 5 * real (length frames)"
    by auto
  show ?thesis
  proof (cases "length frames")
    case 0
    with stop have "d / 5 \<le> 0" by simp
    then have "\<lceil>d / 5\<rceil> \<le> 0" by (simp add: ceiling_le_iff)
    with 0 show ?thesis by simp
  next
    case (Suc n)
    with below have "5 * real n < d" by simp
    then have lo: "real_of_int (int (Suc n)) - 1 < d / 5" by simp
    from stop Suc have hi: "d / 5 \<le> real_of_int (int (Suc n))" by simp
    from lo hi have "\<lceil>d / 5\<rceil> = int (Suc n)" by (rule ceiling_unique)
    with Suc show ?thesis by simp
  qed
qed

lemma short_run: "extractFramesFromVideo 4 short_video = Some (Inr short_frames)"
  by (simp add: extractFramesFromVideo_def short_video_def short_frames_def numeral_eq_Suc upt_rec)

lemma long_run: "extractFramesFromVideo 22 long_video = Some (Inr long_frames)"
  by (simp add: extractFramesFromVideo_def long_video_def long_frames_def numeral_eq_Suc upt_rec)

text \<open>
  More fuel does not change what the sampler settles with; and with a duration that is
  not a number or is infinite it never settles, however much fuel there is: the test of
  line 106 is never true.
\<close>

lemma captureFrame_more_fuel:
  "captureFrame fuel v duration t acc = Some r \<Longrightarrow>
   captureFrame (fuel + k) v duration t acc = Some r"
proof (induction fuel arbitrary: t acc)
  case 0
  then show ?case by simp
next
  case (Suc fuel)
  show ?case
  proof (cases "js_ge t duration")
    case True
    with Suc.prems show ?thesis by simp
  next
    case False
    show ?thesis
    proof (cases "seek v t")
      case (Seeked url)
      with Suc.prems False have
        "captureFrame fuel v duration (t + 5)
           (acc @ [\<lparr>timestamp = real_of_int \<lfloor>t\<rfloor>, dataUrl = url\<rparr>]) = Some r"
        by simp
      from Suc.IH[OF this] show ?thesis
        using False Seeked by simp
    next
      case (Failed err)
      with Suc.prems False show ?thesis by simp
    next
      case Hangs
      with Suc.prems False show ?thesis by simp
    qed
  qed
qed

lemma sampler_never_settles:
  assumes "canvas_context v"
    and "loadedmetadata v = Inr NaN \<or> loadedmetadata v = Inr PosInf"
    and "\<forall>t. \<exists>url. seek v t = Seeked url"
  shows "extractFramesFromVideo fuel v = None"
proof -
  have "captureFrame fuel v duration t acc = None"
    if "duration = NaN \<or> duration = PosInf" for duration t acc
    using that
  proof (induction fuel arbitrary: t acc)
    case 0
    then show ?case by simp
  next
    case (Suc fuel)
    from assms(3) obtain url where "seek v t = Seeked url" by blast
    moreover from Suc.prems have "\<not> js_ge t duration" by auto
    ultimately show ?case using Suc.IH[OF Suc.prems] by simp
  qed
  with assms(1,2) show ?thesis
    by (auto simp: extractFramesFromVideo_def)
qed

section \<open>The answer of the judge, trimmed and in upper case\<close>

text \<open>
  On text of the ASCII range \<open>toUpperCase\<close> is \<open>upper_ascii\<close> on each code unit;
  \<open>trim\<close> removes a prefix and a suffix of white space and nothing else. So the
  answers of that range that become \<^verbatim>\<open>YES\<close> are the words of three letters
  y, e, s, in either case, within white space.
\<close>

lemma toUpperCase_ascii:
  "list_all (\<lambda>c. c < 128) s \<Longrightarrow> toUpperCase up s = map upper_ascii s"
  by (induction s) simp_all

lemma trim_pad:
  assumes "list_all is_space a" and "list_all is_space b"
    and "m \<noteq> []" and "\<not> is_space (hd m)" and "\<not> is_space (last m)"
  shows "trim (a @ m @ b) = m"
proof -
  have "dropWhile is_space (a @ m @ b) = dropWhile is_space (m @ b)"
    using assms(1) by (intro dropWhile_append2) (simp add: list_all_iff)
  also have "\<dots> = m @ b"
    using assms(3,4) by (cases m) simp_all
  finally have front: "dropWhile is_space (a @ m @ b) = m @ b" .
  have "dropWhile is_space (rev b @ rev m) = dropWhile is_space (rev m)"
    using assms(2) by (intro dropWhile_append2) (simp add: list_all_iff)
  also have "\<dots> = rev m"
    using assms(3,5) by (cases "rev m") (auto simp: last_rev hd_rev)
  finally show ?thesis
    by (simp add: trim_def front)
qed

lemma trim_decompose:
  "\<exists>a b. s = a @ trim s @ b \<and> list_all is_space a \<and> list_all is_space b"
proof -
  let ?d = "dropWhile is_space s"
  let ?t = "takeWhile is_space (rev ?d)"
  have 1: "s = takeWhile is_space s @ ?d"
    by (rule takeWhile_dropWhile_id[symmetric])
  have "rev ?d = ?t @ dropWhile is_space (rev ?d)"
    by (rule takeWhile_dropWhile_id[symmetric])
  then have "rev (rev ?d) = rev (?t @ dropWhile is_space (rev ?d))"
    by (rule arg_cong)
  then have 2: "?d = trim s @ rev ?t"
    unfolding trim_def rev_rev_ident rev_append .
  have a: "list_all is_space (takeWhile is_space s)"
    unfolding list_all_iff by (blast dest: set_takeWhileD)
  have "list_all is_space ?t"
    unfolding list_all_iff by (blast dest: set_takeWhileD)
  then have b: "list_all is_space (rev ?t)"
    by (simp add: list_all_iff)
  from 2 have 3: "takeWhile is_space s @ ?d = takeWhile is_space s @ (trim s @ rev ?t)"
    by (rule arg_cong)
  from 1 3 have "s = takeWhile is_space s @ trim s @ rev ?t"
    by (rule trans)
  with a b show ?thesis by blast
qed

lemma trim_subset: "set (trim s) \<subseteq> set s"
proof
  fix c assume "c \<in> set (trim s)"
  then have "c \<in> set (dropWhile is_space (rev (dropWhile is_space s)))"
    by (simp add: trim_def)
  then have "c \<in> set (rev (dropWhile is_space s))"
    by (rule set_dropWhileD)
  then have "c \<in> set (dropWhile is_space s)"
    by simp
  then show "c \<in> set s"
    by (rule set_dropWhileD)
qed

lemma upper_ascii_eq:
  "upper_ascii c = 89 \<longleftrightarrow> c = 89 \<or> c = 121"
  "upper_ascii c = 69 \<longleftrightarrow> c = 69 \<or> c = 101"
  "upper_ascii c = 83 \<longleftrightarrow> c = 83 \<or> c = 115"
  by (auto simp: upper_ascii_def)

lemma yes_units: "units ''YES'' = [89, 69, 83]"
  by (simp add: units_def)

lemma letters_are_no_space:
  "\<not> is_space 89" "\<not> is_space 121" "\<not> is_space 83" "\<not> is_space 115"
  by (simp_all add: is_space_def)

lemma yes_accepted:
  assumes "list_all is_space a" and "list_all is_space b"
    and "c1 = 89 \<or> c1 = 121" and "c2 = 69 \<or> c2 = 101" and "c3 = 83 \<or> c3 = 115"
  shows "toUpperCase up (trim (a @ [c1, c2, c3] @ b)) = units ''YES''"
proof -
  from assms(3) have "\<not> is_space c1"
    by (elim disjE) (simp_all add: letters_are_no_space)
  moreover from assms(5) have "\<not> is_space c3"
    by (elim disjE) (simp_all add: letters_are_no_space)
  ultimately have "trim (a @ [c1, c2, c3] @ b) = [c1, c2, c3]"
    using assms(1,2) by (intro trim_pad) simp_all
  moreover from assms(3-5) have "upper_ascii c1 = 89" "upper_ascii c2 = 69" "upper_ascii c3 = 83"
    by (simp_all add: upper_ascii_eq)
  moreover from assms(3-5) have "c1 < 128" "c2 < 128" "c3 < 128"
    by auto
  ultimately show ?thesis
    by (simp add: yes_units)
qed

lemma yes_only:
  assumes "list_all (\<lambda>c. c < 128) (trim s)" and "toUpperCase up (trim s) = units ''YES''"
  shows "\<exists>a b c1 c2 c3. s = a @ [c1, c2, c3] @ b \<and> list_all is_space a \<and> list_all is_space b \<and>
           (c1 = 89 \<or> c1 = 121) \<and> (c2 = 69 \<or> c2 = 101) \<and> (c3 = 83 \<or> c3 = 115)"
proof -
  from assms have "map upper_ascii (trim s) = [89, 69, 83]"
    by (simp add: toUpperCase_ascii yes_units)
  then obtain c1 c2 c3 where t: "trim s = [c1, c2, c3]"
    and c: "upper_ascii c1 = 89" "upper_ascii c2 = 69" "upper_ascii c3 = 83"
    by (auto simp: map_eq_Cons_conv)
  from trim_decompose[of s] obtain a b where
    "s = a @ trim s @ b" "list_all is_space a" "list_all is_space b"
    by blast
  with t have "s = a @ [c1, c2, c3] @ b" by simp
  moreover from c have "(c1 = 89 \<or> c1 = 121) \<and> (c2 = 69 \<or> c2 = 101) \<and> (c3 = 83 \<or> c3 = 115)"
    by (simp only: upper_ascii_eq)
  ultimately show ?thesis
    using \<open>list_all is_space a\<close> \<open>list_all is_space b\<close> by blast
qed

lemma analyzeFrame_iff:
  "analyzeFrame e i url \<longleftrightarrow>
     import_openai e (Suc i) = None \<and>
     (\<exists>c cs s. vision e i url = Inr (ChatCompletion (c # cs)) \<and>
        choice_message c = Some (ChatMessage (Some s)) \<and>
        toUpperCase (unicode_upper e) (trim s) = units ''YES'')"
proof (cases "import_openai e (Suc i)")
  case (Some a)
  then show ?thesis by (simp add: analyzeFrame_def analyzeFrame_try_def)
next
  case None
  show ?thesis
  proof (cases "vision e i url")
    case (Inl a)
    then show ?thesis using None by (simp add: analyzeFrame_def analyzeFrame_try_def)
  next
    case (Inr r)
    obtain chs where r: "r = ChatCompletion chs" by (cases r)
    show ?thesis
    proof (cases chs)
      case Nil
      then show ?thesis using None Inr r
        by (simp add: analyzeFrame_def analyzeFrame_try_def answer_of_def)
    next
      case (Cons c cs)
      show ?thesis
      proof (cases "choice_message c")
        case no: None
        then show ?thesis using None Inr r Cons
          by (simp add: analyzeFrame_def analyzeFrame_try_def answer_of_def)
      next
        case (Some m)
        obtain ct where m: "m = ChatMessage ct" by (cases m)
        show ?thesis using None Inr r Cons Some m
          by (cases ct) (simp_all add: analyzeFrame_def analyzeFrame_try_def answer_of_def)
      qed
    qed
  qed
qed

lemma long_s_accepted:
  assumes "up [383] = [83]"
  shows "toUpperCase up (trim (units ''ye'' @ [383])) = units ''YES''"
proof -
  have "\<not> is_space 383" "\<not> is_space 121"
    by (simp_all add: is_space_def)
  then have "trim ([] @ [121, 101, 383] @ []) = [121, 101, 383]"
    by (intro trim_pad) simp_all
  then show ?thesis
    using assms by (simp add: units_def upper_ascii_def)
qed

section \<open>The end of the stream, as the caller meets it\<close>

text \<open>
  The \<^verbatim>\<open>start\<close> callback ends with an error on one path only, that of a request
  which fails the validation; on every other path the stream is closed once.
\<close>

lemma start_rejects_iff:
  "fst (POST e) \<noteq> None \<longleftrightarrow>
     (\<exists>body. request_json e = Inr body \<and> \<not> nullish body \<and>
        (\<not> truthy (js_prop body ''audioDataUrl'') \<or> \<not> truthy (js_prop body ''frames'')))"
proof -
  have open0: "\<not> closed initial" by (simp add: initial_def)
  show ?thesis
  proof (cases "request_json e")
    case (Inl err)
    then have "try_block e initial = (Some err, initial)"
      by (simp add: try_block_def)
    then show ?thesis
      using Inl by (simp add: POST_def exit_open_thrown open0)
  next
    case (Inr body)
    show ?thesis
    proof (cases "nullish body")
      case True
      then have "try_block e initial =
          (Some (JsError ''Cannot destructure property audioDataUrl of body as it is null.''), initial)"
        using Inr by (simp add: try_block_def destructure_def)
      then show ?thesis
        using Inr True by (simp add: POST_def exit_open_thrown open0)
    next
      case False
      let ?a = "js_prop body ''audioDataUrl''" and ?f = "js_prop body ''frames''"
      show ?thesis
      proof (cases "truthy ?a \<and> truthy ?f")
        case invalid: False
        then have "fst (POST e) = Some already_closed"
          using missing_input_closes_twice[OF Inr False] by auto
        then show ?thesis
          using Inr False invalid by auto
      next
        case True
        let ?st2 = "initial\<lparr>events := [Progress TranscribingAudio], transcribe_calls := [?a]\<rparr>"
        have tb: "try_block e initial = classify_frames e ?f (transcribeAudio e ?a) ?st2"
          using Inr False True
          by (simp add: try_block_def destructure_def enqueue_def open0 initial_def)
        have "\<not> closed ?st2" by (simp add: open0)
        from classify_frames_exit[OF this, of e ?f "transcribeAudio e ?a"]
        have "fst (POST e) = None"
          unfolding POST_def tb by blast
        then show ?thesis
          using Inr True by auto
      qed
    qed
  qed
qed

lemma one_close_paths:
  assumes "fst (POST e) = None"
  shows "\<exists>ps t. caller_meets queued (POST e) = (ps @ [t], StreamClosed) \<and>
           list_all is_progress ps \<and> is_terminal t"
proof -
  from POST_shape[of e] obtain ps t where
    "events (snd (POST e)) = ps @ [t]" "list_all is_progress ps" "is_terminal t"
    by blast
  with assms show ?thesis
    by (cases "POST e") (auto simp: caller_meets_def)
qed

section \<open>The two signals of the audio extractor\<close>

text \<open>
  The first signal stops the recorder, whichever it is. The timer does nothing to an
  inactive recorder; the handler of \<^verbatim>\<open>ended\<close> calls \<^verbatim>\<open>stop()\<close> on it.
\<close>

lemma first_signal_stops:
  "deliver b started s =
     (onstop b (ondataavailable (recorded b) (started\<lparr>recorder := Inactive\<rparr>)))
       \<lparr>video_paused := (s = Timer)\<rparr>"
  by (cases s)
     (simp_all add: deliver_def onended_def ontimeout_def stop_def started_def onstop_def
        ondataavailable_def resolve_def reject_def Let_def split: sum.splits)

lemma first_signal_inactive:
  "recorder (deliver b started s) = Inactive"
  unfolding first_signal_stops
  by (simp add: onstop_def ondataavailable_def resolve_def reject_def Let_def
        started_def split: sum.splits)

lemma timer_when_inactive:
  "recorder x = Inactive \<Longrightarrow> deliver b x Timer = x"
  by (simp add: deliver_def ontimeout_def)

lemma ended_when_inactive:
  "recorder x = Inactive \<Longrightarrow>
     deliver b x Ended =
       (case stop_inactive b of None \<Rightarrow> x | Some err \<Rightarrow> x\<lparr>uncaught := uncaught x @ [err]\<rparr>)"
  by (simp add: deliver_def onended_def stop_def split: option.splits)

lemma one_payload_one_settlement:
  "payloads (deliver b started s) = [[recorded b]] \<and>
   resolve_calls (deliver b started s) = 1 \<and>
   uncaught (deliver b started s) = [] \<and>
   promise (deliver b started s) =
     Some (case readAsDataURL b [recorded b] of
             Inr result \<Rightarrow> Resolved (Some result) | Inl err \<Rightarrow> Rejected err)"
  unfolding first_signal_stops
  by (simp add: onstop_def ondataavailable_def resolve_def reject_def Let_def
        started_def split: sum.splits)

lemma ended_then_timer:
  "extractAudioFromVideo b [Ended, Timer] = deliver b started Ended"
  by (simp add: extractAudioFromVideo_def timer_when_inactive first_signal_inactive)

lemma timer_then_ended:
  "extractAudioFromVideo b [Timer, Ended] =
     (case stop_inactive b of
        None \<Rightarrow> deliver b started Timer
      | Some err \<Rightarrow> (deliver b started Timer)\<lparr>uncaught := [err]\<rparr>)"
  by (simp add: extractAudioFromVideo_def ended_when_inactive first_signal_inactive
        one_payload_one_settlement split: option.splits)

section \<open>The claims\<close>

text \<open>
  C1. A request that passes the validation and whose \<^verbatim>\<open>frames\<close> is an array of \<open>n\<close>
  frames (none of the first twenty is null): \<open>analyzeFrame\<close> is called on the frames at
  the indices 0 to \<open>min n 20 - 1\<close>, in this order, and on no other; the run ends with
  the complete event, whose slides are the frames among these that \<open>analyzeFrame\<close>
  accepted, in their order, each with the \<^verbatim>\<open>dataUrl\<close> and the \<^verbatim>\<open>timestamp\<close>
  of its frame; so the slides are a subsequence of the first twenty frames, at most
  \<open>min n 20\<close> of them.
\<close>

theorem C1_first_twenty:
  assumes "request_json e = Inr body" and "\<not> nullish body"
    and "truthy (js_prop body ''audioDataUrl'')"
    and "js_prop body ''frames'' = JArr fs"
    and "\<forall>f\<in>set (take 20 fs). \<not> nullish f"
  shows "\<exists>slides.
      analyze_calls (snd (POST e)) =
        map (\<lambda>j. (j, js_prop (fs ! j) ''dataUrl'')) [0..<min (length fs) 20] \<and>
      last (events (snd (POST e))) =
        Complete (transcribeAudio e (js_prop body ''audioDataUrl'')) slides \<and>
      slides =
        map (\<lambda>j. Slide (js_prop (fs ! j) ''dataUrl'') (js_prop (fs ! j) ''timestamp''))
          (filter (\<lambda>j. analyzeFrame e j (js_prop (fs ! j) ''dataUrl''))
             [0..<min (length fs) 20]) \<and>
      subseq slides
        (map (\<lambda>f. Slide (js_prop f ''dataUrl'') (js_prop f ''timestamp'')) (take 20 fs)) \<and>
      length slides \<le> min (length fs) 20"
proof -
  let ?n = "min (length fs) 20"
  let ?mk = "\<lambda>f. Slide (js_prop f ''dataUrl'') (js_prop f ''timestamp'')"
  let ?acc = "filter (\<lambda>j. analyzeFrame e j (js_prop (fs ! j) ''dataUrl'')) [0..<?n]"
  let ?slides = "map (\<lambda>j. ?mk (fs ! j)) ?acc"
  from assms(5) have nn: "\<forall>j. j < ?n \<longrightarrow> \<not> nullish (fs ! j)"
    by (rule nullish_take)
  note run = POST_valid_array[OF assms(1-4) nn]
  have "subseq ?slides (map (\<lambda>j. ?mk (fs ! j)) [0..<?n])"
    by (simp add: subseq_map)
  moreover have "map (\<lambda>j. ?mk (fs ! j)) [0..<?n] = map ?mk (take ?n fs)"
    by (rule map_nth_take) simp
  moreover have "take ?n fs = take 20 fs"
    by (simp add: min_def)
  ultimately have sub: "subseq ?slides (map ?mk (take 20 fs))"
    by simp
  have "length ?acc \<le> length [0..<?n]"
    by (rule length_filter_le)
  then have len: "length ?slides \<le> ?n"
    by simp
  show ?thesis
    using sub len by (intro exI[of _ ?slides]) (simp add: run)
qed

theorem C1_witness:
  "request_json example_env = Inr example_body \<and>
   js_prop example_body ''frames'' = JArr example_frames \<and>
   analyze_calls (snd (POST example_env)) =
     [(0, JStr ''data:image/png;base64,AAAA''),
      (1, JStr ''data:image/png;base64,BBBB''),
      (2, JStr ''data:image/png;base64,CCCC'')] \<and>
   last (events (snd (POST example_env))) =
     Complete ''hello''
       [Slide (JStr ''data:image/png;base64,AAAA'') (JNum 0),
        Slide (JStr ''data:image/png;base64,CCCC'') (JNum 10)]"
proof -
  have h1: "request_json example_env = Inr example_body"
    by (simp add: example_env_def)
  have h2: "\<not> nullish example_body"
    by (simp add: example_body_def)
  have h3: "truthy (js_prop example_body ''audioDataUrl'')"
    by (simp add: example_body_def)
  have h4: "js_prop example_body ''frames'' = JArr example_frames"
    by (simp add: example_body_def)
  have h5: "\<forall>f\<in>set (take 20 example_frames). \<not> nullish f"
    by (simp add: example_frames_def frame_at_def)
  have tr: "transcribeAudio example_env (js_prop example_body ''audioDataUrl'') = ''hello''"
    by code_simp
  have up: "[0..<min (length example_frames) 20] = [0, 1, 2]"
    by (simp add: example_frames_def upt_rec)
  have fr: "example_frames ! 0 = frame_at 0 ''data:image/png;base64,AAAA''"
    "example_frames ! Suc 0 = frame_at 5 ''data:image/png;base64,BBBB''"
    "example_frames ! 2 = frame_at 10 ''data:image/png;base64,CCCC''"
    by (simp_all add: example_frames_def)
  from C1_first_twenty[OF h1 h2 h3 h4 h5] show ?thesis
    unfolding up tr
    by (auto simp: h1 h4 fr frame_at_def example_accepts)
qed

text \<open>
  C2. A run closes the stream once on every path but one. When the \<^verbatim>\<open>start\<close>
  callback returns normally, the caller meets progress events followed by one terminal
  event, and the stream ends closed. The callback ends with an error exactly when the
  request fails the validation of line 84: the stream is closed on line 86, the
  \<^verbatim>\<open>finally\<close> closes it again, and this second \<^verbatim>\<open>close\<close> throws. A caller
  that has read the error event by then has met it and a closed stream; a caller that
  has not never reads it: the stream ends errored, with no terminal event.
\<close>

theorem C2_second_close_errors_stream:
  "(fst (POST e) = None \<longrightarrow>
      (\<exists>ps t. caller_meets queued (POST e) = (ps @ [t], StreamClosed) \<and>
         list_all is_progress ps \<and> is_terminal t)) \<and>
   (fst (POST e) \<noteq> None \<longleftrightarrow>
      (\<exists>body. request_json e = Inr body \<and> \<not> nullish body \<and>
         (\<not> truthy (js_prop body ''audioDataUrl'') \<or> \<not> truthy (js_prop body ''frames'')))) \<and>
   (fst (POST e) \<noteq> None \<longrightarrow>
      fst (POST e) = Some already_closed \<and>
      caller_meets 0 (POST e) = ([Error ''Missing audio or frames data''], StreamClosed) \<and>
      (0 < queued \<longrightarrow> caller_meets queued (POST e) = ([], StreamErrored already_closed)))"
proof (intro conjI impI)
  assume "fst (POST e) = None"
  then show "\<exists>ps t. caller_meets queued (POST e) = (ps @ [t], StreamClosed) \<and>
      list_all is_progress ps \<and> is_terminal t"
    by (rule one_close_paths)
next
  show "fst (POST e) \<noteq> None \<longleftrightarrow>
      (\<exists>body. request_json e = Inr body \<and> \<not> nullish body \<and>
         (\<not> truthy (js_prop body ''audioDataUrl'') \<or> \<not> truthy (js_prop body ''frames'')))"
    by (rule start_rejects_iff)
next
  assume "fst (POST e) \<noteq> None"
  then obtain body where b: "request_json e = Inr body" "\<not> nullish body"
      "\<not> truthy (js_prop body ''audioDataUrl'') \<or> \<not> truthy (js_prop body ''frames'')"
    using start_rejects_iff[of e] by blast
  show "fst (POST e) = Some already_closed"
    by (simp add: missing_input_closes_twice[OF b])
  show "caller_meets 0 (POST e) = ([Error ''Missing audio or frames data''], StreamClosed)"
    by (simp add: missing_input_closes_twice[OF b] caller_meets_def)
  assume "0 < queued"
  then show "caller_meets queued (POST e) = ([], StreamErrored already_closed)"
    by (simp add: missing_input_closes_twice[OF b] caller_meets_def)
qed

theorem C2_witness:
  "caller_meets (Suc 0) (POST example_env) =
     ([Progress TranscribingAudio, Progress AnalyzingFrames,
       Progress (AnalyzingFrame 1 (Fin 3)), Progress (AnalyzingFrame 2 (Fin 3)),
       Progress (AnalyzingFrame 3 (Fin 3)),
       Complete ''hello''
         [Slide (JStr ''data:image/png;base64,AAAA'') (JNum 0),
          Slide (JStr ''data:image/png;base64,CCCC'') (JNum 10)]], StreamClosed) \<and>
   request_json empty_body_env = Inr (JObj []) \<and>
   fst (POST empty_body_env) = Some already_closed \<and>
   events (snd (POST empty_body_env)) = [Error ''Missing audio or frames data''] \<and>
   caller_meets (Suc 0) (POST empty_body_env) = ([], StreamErrored already_closed)"
proof -
  have h: "request_json empty_body_env = Inr (JObj [])"
    by (simp add: empty_body_env_def)
  have n: "\<not> nullish (JObj [])" by simp
  have m: "\<not> truthy (js_prop (JObj []) ''audioDataUrl'') \<or> \<not> truthy (js_prop (JObj []) ''frames'')"
    by simp
  have ev: "events (snd (POST empty_body_env)) = [Error ''Missing audio or frames data'']"
    by (simp add: missing_input_closes_twice[OF h n m])
  have "fst (POST example_env) = None"
    by (simp add: example_run)
  with C2_second_close_errors_stream[of example_env "Suc 0"]
  have ok: "\<exists>ps t. caller_meets (Suc 0) (POST example_env) = (ps @ [t], StreamClosed)"
    by blast
  have run: "caller_meets (Suc 0) (POST example_env) =
     ([Progress TranscribingAudio, Progress AnalyzingFrames,
       Progress (AnalyzingFrame 1 (Fin 3)), Progress (AnalyzingFrame 2 (Fin 3)),
       Progress (AnalyzingFrame 3 (Fin 3)),
       Complete ''hello''
         [Slide (JStr ''data:image/png;base64,AAAA'') (JNum 0),
          Slide (JStr ''data:image/png;base64,CCCC'') (JNum 10)]], StreamClosed)"
    using ok by (simp add: example_run caller_meets_def)
  from h n m have "fst (POST empty_body_env) \<noteq> None"
    using C2_second_close_errors_stream[of empty_body_env "Suc 0"] by blast
  with C2_second_close_errors_stream[of empty_body_env "Suc 0"]
  have "fst (POST empty_body_env) = Some already_closed \<and>
      caller_meets (Suc 0) (POST empty_body_env) = ([], StreamErrored already_closed)"
    by simp
  with run h ev show ?thesis
    by simp
qed

text \<open>
  C3. \<open>transcribeAudio\<close> returns a string on every input: when anything in its
  \<^verbatim>\<open>try\<close> fails with an error, the string is
  \<^verbatim>\<open>[Transcription unavailable: <message>]\<close>. In a run whose request passes the
  validation with an array of frames, such a failure changes nothing else: no error
  escapes, every one of the first twenty frames is still classified, all events before
  the last are progress events and the last is the complete event carrying that string.
\<close>

theorem C3_transcription_failure_degrades:
  assumes "request_json e = Inr body" and "\<not> nullish body"
    and "truthy (js_prop body ''audioDataUrl'')"
    and "js_prop body ''frames'' = JArr fs"
    and "\<forall>f\<in>set (take 20 fs). \<not> nullish f"
    and "transcribeAudio_try e (js_prop body ''audioDataUrl'') = Inl err"
  shows "transcribeAudio e (js_prop body ''audioDataUrl'') =
           ''[Transcription unavailable: '' @ message err @ '']'' \<and>
         fst (POST e) = None \<and>
         transcribe_calls (snd (POST e)) = [js_prop body ''audioDataUrl''] \<and>
         analyze_calls (snd (POST e)) =
           map (\<lambda>j. (j, js_prop (fs ! j) ''dataUrl'')) [0..<min (length fs) 20] \<and>
         (\<exists>slides. last (events (snd (POST e))) =
            Complete (''[Transcription unavailable: '' @ message err @ '']'') slides) \<and>
         list_all is_progress (butlast (events (snd (POST e))))"
proof -
  from assms(5) have nn: "\<forall>j. j < min (length fs) 20 \<longrightarrow> \<not> nullish (fs ! j)"
    by (rule nullish_take)
  note run = POST_valid_array[OF assms(1-4) nn]
  have tr: "transcribeAudio e (js_prop body ''audioDataUrl'') =
      ''[Transcription unavailable: '' @ message err @ '']''"
    using assms(6) by (simp add: transcribeAudio_def unavailable_def)
  have "list_all is_progress
     (map (\<lambda>j. Progress (AnalyzingFrame (j + 1) (Fin (real (min (length fs) 20)))))
        [0..<min (length fs) 20])"
    by (simp add: list_all_iff)
  then show ?thesis
    by (simp add: run tr butlast_append)
qed

theorem C3_witness:
  "transcribeAudio_try unauthorized_env (JStr ''data:audio/webm;base64,QUJD'') =
     Inl (JsError ''401 Incorrect API key provided'') \<and>
   fst (POST unauthorized_env) = None \<and>
   analyze_calls (snd (POST unauthorized_env)) =
     [(0, JStr ''data:image/png;base64,AAAA''),
      (1, JStr ''data:image/png;base64,BBBB''),
      (2, JStr ''data:image/png;base64,CCCC'')] \<and>
   (\<exists>slides. last (events (snd (POST unauthorized_env))) =
      Complete ''[Transcription unavailable: 401 Incorrect API key provided]'' slides)"
proof -
  have h: "request_json unauthorized_env = Inr example_body"
    by (simp add: unauthorized_env_def example_env_def)
  have a: "js_prop example_body ''audioDataUrl'' = JStr ''data:audio/webm;base64,QUJD''"
    by (simp add: example_body_def)
  have f: "transcribeAudio_try unauthorized_env (js_prop example_body ''audioDataUrl'') =
      Inl (JsError ''401 Incorrect API key provided'')"
    unfolding a by code_simp
  from C3_transcription_failure_degrades[OF h example_hyps(2-5) f] f show ?thesis
    unfolding example_upt a
    by (simp add: example_nth frame_at_def)
qed

text \<open>
  C4. \<open>analyzeFrame\<close> answers true exactly when the client could be loaded, the judge
  returned a completion, and the content of its first choice, trimmed and in upper case,
  is \<^verbatim>\<open>YES\<close>; a failed call answers false. Trimming removes the white space of
  JavaScript, the no-break space among it, at both ends; upper case is that of the
  letters a to z, and of the Unicode table for text beyond the ASCII range. So every
  answer y, e, s in either case within white space is accepted, these are the only
  accepted answers whose trimmed text is of the ASCII range, and beyond it \<^verbatim>\<open>ye\<close> followed by the
  long s, which the table maps to S, is accepted as well. In a run whose request passes
  the validation with an array of frames, a call that fails on frame \<open>k\<close> costs
  that frame only: all of the first twenty frames are classified, the run ends with the
  complete event, and its slides are the accepted frames other than \<open>k\<close>.
\<close>

theorem C4_only_exact_yes_accepts:
  "(analyzeFrame e i url \<longleftrightarrow>
      import_openai e (Suc i) = None \<and>
      (\<exists>c cs s. vision e i url = Inr (ChatCompletion (c # cs)) \<and>
         choice_message c = Some (ChatMessage (Some s)) \<and>
         toUpperCase (unicode_upper e) (trim s) = units ''YES'')) \<and>
   (analyzeFrame_try e i url = Inl err \<longrightarrow> \<not> analyzeFrame e i url) \<and>
   (list_all is_space a \<and> list_all is_space b \<and>
    c1 \<in> set (units ''Yy'') \<and> c2 \<in> set (units ''Ee'') \<and> c3 \<in> set (units ''Ss'') \<longrightarrow>
      toUpperCase up (trim (a @ [c1, c2, c3] @ b)) = units ''YES'') \<and>
   (list_all (\<lambda>c. c < 128) (trim t) \<and> toUpperCase up (trim t) = units ''YES'' \<longrightarrow>
      (\<exists>a b c1 c2 c3. t = a @ [c1, c2, c3] @ b \<and> list_all is_space a \<and> list_all is_space b \<and>
         c1 \<in> set (units ''Yy'') \<and> c2 \<in> set (units ''Ee'') \<and> c3 \<in> set (units ''Ss''))) \<and>
   (up [383] = [83] \<longrightarrow> toUpperCase up (trim (units ''ye'' @ [383])) = units ''YES'') \<and>
   (request_json e = Inr body \<and> \<not> nullish body \<and> truthy (js_prop body ''audioDataUrl'') \<and>
    js_prop body ''frames'' = JArr fs \<and> (\<forall>f\<in>set (take 20 fs). \<not> nullish f) \<and>
    k < min (length fs) 20 \<and>
    analyzeFrame_try e k (js_prop (fs ! k) ''dataUrl'') = Inl err' \<longrightarrow>
      fst (POST e) = None \<and>
      analyze_calls (snd (POST e)) =
        map (\<lambda>j. (j, js_prop (fs ! j) ''dataUrl'')) [0..<min (length fs) 20] \<and>
      (\<exists>tr. last (events (snd (POST e))) =
         Complete tr
           (map (\<lambda>j. Slide (js_prop (fs ! j) ''dataUrl'') (js_prop (fs ! j) ''timestamp''))
              (filter (\<lambda>j. j \<noteq> k \<and> analyzeFrame e j (js_prop (fs ! j) ''dataUrl''))
                 [0..<min (length fs) 20]))))"
proof (intro conjI impI)
  show "analyzeFrame e i url \<longleftrightarrow>
      import_openai e (Suc i) = None \<and>
      (\<exists>c cs s. vision e i url = Inr (ChatCompletion (c # cs)) \<and>
         choice_message c = Some (ChatMessage (Some s)) \<and>
         toUpperCase (unicode_upper e) (trim s) = units ''YES'')"
    by (rule analyzeFrame_iff)
next
  assume "analyzeFrame_try e i url = Inl err"
  then show "\<not> analyzeFrame e i url"
    by (simp add: analyzeFrame_def)
next
  assume "list_all is_space a \<and> list_all is_space b \<and>
    c1 \<in> set (units ''Yy'') \<and> c2 \<in> set (units ''Ee'') \<and> c3 \<in> set (units ''Ss'')"
  then show "toUpperCase up (trim (a @ [c1, c2, c3] @ b)) = units ''YES''"
    by (intro yes_accepted) (auto simp: units_def)
next
  assume "list_all (\<lambda>c. c < 128) (trim t) \<and> toUpperCase up (trim t) = units ''YES''"
  then have "\<exists>a b c1 c2 c3. t = a @ [c1, c2, c3] @ b \<and> list_all is_space a \<and> list_all is_space b \<and>
           (c1 = 89 \<or> c1 = 121) \<and> (c2 = 69 \<or> c2 = 101) \<and> (c3 = 83 \<or> c3 = 115)"
    by (intro yes_only[of t up]) simp_all
  then show "\<exists>a b c1 c2 c3. t = a @ [c1, c2, c3] @ b \<and> list_all is_space a \<and> list_all is_space b \<and>
         c1 \<in> set (units ''Yy'') \<and> c2 \<in> set (units ''Ee'') \<and> c3 \<in> set (units ''Ss'')"
    by (simp add: units_def)
next
  assume "up [383] = [83]"
  then show "toUpperCase up (trim (units ''ye'' @ [383])) = units ''YES''"
    by (rule long_s_accepted)
next
  assume h: "request_json e = Inr body \<and> \<not> nullish body \<and> truthy (js_prop body ''audioDataUrl'') \<and>
    js_prop body ''frames'' = JArr fs \<and> (\<forall>f\<in>set (take 20 fs). \<not> nullish f) \<and>
    k < min (length fs) 20 \<and>
    analyzeFrame_try e k (js_prop (fs ! k) ''dataUrl'') = Inl err'"
  then have nn: "\<forall>j. j < min (length fs) 20 \<longrightarrow> \<not> nullish (fs ! j)"
    by (intro nullish_take) simp
  from h have run: "POST e =
     (None,
      \<lparr>events = [Progress TranscribingAudio, Progress AnalyzingFrames] @
           map (\<lambda>j. Progress (AnalyzingFrame (j + 1) (Fin (real (min (length fs) 20)))))
             [0..<min (length fs) 20] @
           [Complete (transcribeAudio e (js_prop body ''audioDataUrl''))
              (map (\<lambda>j. Slide (js_prop (fs ! j) ''dataUrl'') (js_prop (fs ! j) ''timestamp''))
                 (filter (\<lambda>j. analyzeFrame e j (js_prop (fs ! j) ''dataUrl''))
                    [0..<min (length fs) 20]))],
        closed = True,
        transcribe_calls = [js_prop body ''audioDataUrl''],
        analyze_calls = map (\<lambda>j. (j, js_prop (fs ! j) ''dataUrl'')) [0..<min (length fs) 20]\<rparr>)"
    using nn by (intro POST_valid_array) simp_all
  from h have "\<not> analyzeFrame e k (js_prop (fs ! k) ''dataUrl'')"
    by (simp add: analyzeFrame_def)
  then have flt: "filter (\<lambda>j. j \<noteq> k \<and> analyzeFrame e j (js_prop (fs ! j) ''dataUrl'')) [0..<min (length fs) 20]
     = filter (\<lambda>j. analyzeFrame e j (js_prop (fs ! j) ''dataUrl'')) [0..<min (length fs) 20]"
    by (intro filter_cong) auto
  show "fst (POST e) = None"
    by (simp add: run)
  show "analyze_calls (snd (POST e)) =
        map (\<lambda>j. (j, js_prop (fs ! j) ''dataUrl'')) [0..<min (length fs) 20]"
    by (simp add: run)
  show "\<exists>tr. last (events (snd (POST e))) =
         Complete tr
           (map (\<lambda>j. Slide (js_prop (fs ! j) ''dataUrl'') (js_prop (fs ! j) ''timestamp''))
              (filter (\<lambda>j. j \<noteq> k \<and> analyzeFrame e j (js_prop (fs ! j) ''dataUrl''))
                 [0..<min (length fs) 20]))"
    unfolding flt by (simp add: run)
qed

theorem C4_witness:
  "analyzeFrame flaky_env 0 (JStr ''data:image/png;base64,AAAA'') \<and>
   vision flaky_env 0 (JStr ''data:image/png;base64,AAAA'') =
     Inr (reply ([160] @ units '' yes'' @ [10])) \<and>
   analyzeFrame_try flaky_env 1 (JStr ''data:image/png;base64,BBBB'') =
     Inl (JsError ''429 Rate limit reached'') \<and>
   \<not> analyzeFrame flaky_env 1 (JStr ''data:image/png;base64,BBBB'') \<and>
   vision flaky_env 2 (JStr ''data:image/png;base64,CCCC'') = Inr (reply (units ''Yes.'')) \<and>
   \<not> analyzeFrame flaky_env 2 (JStr ''data:image/png;base64,CCCC'') \<and>
   fst (POST flaky_env) = None \<and>
   analyze_calls (snd (POST flaky_env)) =
     [(0, JStr ''data:image/png;base64,AAAA''),
      (1, JStr ''data:image/png;base64,BBBB''),
      (2, JStr ''data:image/png;base64,CCCC'')] \<and>
   (\<exists>tr. last (events (snd (POST flaky_env))) =
      Complete tr [Slide (JStr ''data:image/png;base64,AAAA'') (JNum 0)])"
proof -
  let ?A = "JStr ''data:image/png;base64,AAAA''"
  let ?B = "JStr ''data:image/png;base64,BBBB''"
  let ?C = "JStr ''data:image/png;base64,CCCC''"
  have h: "request_json flaky_env = Inr example_body"
    by (simp add: flaky_env_def example_env_def)
  have k: "Suc 0 < min (length example_frames) 20"
    by (simp add: example_frames_def)
  have f: "analyzeFrame_try flaky_env (Suc 0) (js_prop (example_frames ! Suc 0) ''dataUrl'') =
      Inl (JsError ''429 Rate limit reached'')"
    by (simp add: example_nth frame_at_def analyzeFrame_try_def flaky_env_def example_env_def)
  then have f': "analyzeFrame_try flaky_env 1 ?B = Inl (JsError ''429 Rate limit reached'')"
    by (simp add: example_nth frame_at_def)
  have v0: "vision flaky_env 0 ?A = Inr (reply ([160] @ units '' yes'' @ [10]))"
    and v2: "vision flaky_env 2 ?C = Inr (reply (units ''Yes.''))"
    and im: "import_openai flaky_env (Suc 0) = None"
    by (simp_all add: flaky_env_def example_env_def)
  have pad: "[160] @ units '' yes'' @ [10] = [160, 32] @ [121, 101, 115] @ [10]"
    by (simp add: units_def)
  have sp: "list_all is_space [160, 32]" "list_all is_space [10]"
    by (simp_all add: is_space_def)
  have no: "\<not> analyzeFrame flaky_env 2 ?C"
    by (simp add: analyzeFrame_def analyzeFrame_try_def flaky_env_def example_env_def reply_def
          answer_of_def trim_def units_def is_space_def upper_ascii_def)
  note c4 = C4_only_exact_yes_accepts[where e = flaky_env and i = 0 and url = ?A
      and a = "[160, 32]" and b = "[10]" and ?c1.0 = 121 and ?c2.0 = 101 and ?c3.0 = 115
      and up = "unicode_upper flaky_env" and body = example_body and fs = example_frames
      and k = "Suc 0" and err' = "JsError ''429 Rate limit reached''"]
  from c4 sp have up: "toUpperCase (unicode_upper flaky_env) (trim ([160, 32] @ [121, 101, 115] @ [10])) =
      units ''YES''"
    by (simp add: units_def)
  from c4 have iff: "analyzeFrame flaky_env 0 ?A \<longleftrightarrow>
      import_openai flaky_env (Suc 0) = None \<and>
      (\<exists>c cs s. vision flaky_env 0 ?A = Inr (ChatCompletion (c # cs)) \<and>
         choice_message c = Some (ChatMessage (Some s)) \<and>
         toUpperCase (unicode_upper flaky_env) (trim s) = units ''YES'')"
    by blast
  have yes: "analyzeFrame flaky_env 0 ?A"
    unfolding iff using im v0 up by (simp add: reply_def units_def)
  from c4 h example_hyps(2-5) k f have run: "fst (POST flaky_env) = None \<and>
      analyze_calls (snd (POST flaky_env)) =
        map (\<lambda>j. (j, js_prop (example_frames ! j) ''dataUrl''))
          [0..<min (length example_frames) 20] \<and>
      (\<exists>tr. last (events (snd (POST flaky_env))) =
         Complete tr
           (map (\<lambda>j. Slide (js_prop (example_frames ! j) ''dataUrl'')
                          (js_prop (example_frames ! j) ''timestamp''))
              (filter (\<lambda>j. j \<noteq> Suc 0 \<and>
                           analyzeFrame flaky_env j (js_prop (example_frames ! j) ''dataUrl''))
                 [0..<min (length example_frames) 20])))"
    by blast
  from f' have n1: "\<not> analyzeFrame flaky_env 1 ?B"
    by (simp add: analyzeFrame_def)
  from run yes no have "fst (POST flaky_env) = None \<and>
      analyze_calls (snd (POST flaky_env)) = [(0, ?A), (1, ?B), (2, ?C)] \<and>
      (\<exists>tr. last (events (snd (POST flaky_env))) = Complete tr [Slide ?A (JNum 0)])"
    unfolding example_upt
    by (simp add: example_nth frame_at_def)
  with yes v0 f' n1 v2 no show ?thesis
    by blast
qed

text \<open>
  C5. A request body that is an object without \<^verbatim>\<open>audioDataUrl\<close> or without
  \<^verbatim>\<open>frames\<close>: the controller takes the one error event
  \<^verbatim>\<open>Missing audio or frames data\<close>, neither adapter is called, and the stream is
  closed twice, on line 86 and in the \<^verbatim>\<open>finally\<close>, so that \<^verbatim>\<open>start\<close>
  ends with the error of the second \<^verbatim>\<open>close\<close>. A caller that has read the event
  by then has met one error event and a closed stream; a caller that has not meets no
  event and an errored stream.
\<close>

theorem C5_missing_field_closes_twice:
  assumes "request_json e = Inr (JObj kvs)"
    and "map_of kvs ''audioDataUrl'' = None \<or> map_of kvs ''frames'' = None"
  shows "POST e =
           (Some already_closed,
            \<lparr>events = [Error ''Missing audio or frames data''], closed = True,
             transcribe_calls = [], analyze_calls = []\<rparr>) \<and>
         caller_meets 0 (POST e) = ([Error ''Missing audio or frames data''], StreamClosed) \<and>
         caller_meets (Suc 0) (POST e) = ([], StreamErrored already_closed)"
proof -
  from assms(2) have "\<not> truthy (js_prop (JObj kvs) ''audioDataUrl'') \<or>
      \<not> truthy (js_prop (JObj kvs) ''frames'')"
    by auto
  from missing_input_closes_twice[OF assms(1) _ this] show ?thesis
    by (simp add: caller_meets_def)
qed

theorem C5_witness:
  "map_of [(''audioDataUrl'', JStr ''data:audio/webm;base64,QUJD'')] ''frames'' = None \<and>
   fst (POST no_frames_env) = Some already_closed \<and>
   events (snd (POST no_frames_env)) = [Error ''Missing audio or frames data''] \<and>
   transcribe_calls (snd (POST no_frames_env)) = [] \<and>
   analyze_calls (snd (POST no_frames_env)) = [] \<and>
   caller_meets (Suc 0) (POST no_frames_env) = ([], StreamErrored already_closed)"
proof -
  have h: "request_json no_frames_env =
      Inr (JObj [(''audioDataUrl'', JStr ''data:audio/webm;base64,QUJD'')])"
    by (simp add: no_frames_env_def)
  have m: "map_of [(''audioDataUrl'', JStr ''data:audio/webm;base64,QUJD'')] ''frames'' = None"
    by simp
  from C5_missing_field_closes_twice[OF h disjI2[OF m]] m show ?thesis
    by (simp add: caller_meets_def)
qed

text \<open>
  C6. Whenever the sampler settles with frames, their timestamps are 0, 5, 10, ..., one
  every five seconds and strictly increasing; each is below the duration of the video,
  and the next target time, five times the number of frames, is at or beyond it. For a
  video of finite duration \<open>d\<close> whose seeks all complete, the sampler does settle with
  frames, after \<open>\<lceil>d / 5\<rceil>\<close> captures.
\<close>

theorem C6_sampled_every_five_seconds:
  "(extractFramesFromVideo fuel v = Some (Inr frames) \<longrightarrow>
      (\<exists>duration. loadedmetadata v = Inr duration \<and>
         map timestamp frames = map (\<lambda>k. 5 * real k) [0..<length frames] \<and>
         sorted_wrt (<) (map timestamp frames) \<and>
         (\<forall>f\<in>set frames. \<not> js_ge (timestamp f) duration) \<and>
         js_ge (5 * real (length frames)) duration)) \<and>
   (canvas_context v \<and> loadedmetadata v = Inr (Fin d) \<and> (\<forall>t. \<exists>url. seek v t = Seeked url) \<longrightarrow>
      (\<exists>frames. extractFramesFromVideo (Suc (nat \<lceil>d / 5\<rceil>)) v = Some (Inr frames)))"
proof (intro conjI impI)
  assume run: "extractFramesFromVideo fuel v = Some (Inr frames)"
  then obtain duration where du: "loadedmetadata v = Inr duration"
    and cf: "captureFrame fuel v duration (5 * real 0) [] = Some (Inr frames)"
    by (cases "loadedmetadata v") (auto simp: extractFramesFromVideo_def split: if_splits)
  from captureFrame_sound[OF cf] have
    ts: "map timestamp frames = map (\<lambda>k. 5 * real k) [0..<length frames]" and
    below: "\<forall>k. k < length frames \<longrightarrow> \<not> js_ge (5 * real k) duration" and
    stop: "js_ge (5 * real (length frames)) duration"
    by auto
  have inc: "sorted_wrt (<) (map timestamp frames)"
    unfolding ts by (rule strictly_increasing_fives)
  have all: "\<forall>f\<in>set frames. \<not> js_ge (timestamp f) duration"
  proof
    fix f assume "f \<in> set frames"
    then obtain k where k: "k < length frames" "frames ! k = f"
      by (auto simp: in_set_conv_nth)
    then have "timestamp f = map timestamp frames ! k" by simp
    also have "\<dots> = 5 * real k" using k(1) unfolding ts by simp
    finally show "\<not> js_ge (timestamp f) duration" using below k(1) by simp
  qed
  from du ts inc all stop
  show "\<exists>duration. loadedmetadata v = Inr duration \<and>
         map timestamp frames = map (\<lambda>k. 5 * real k) [0..<length frames] \<and>
         sorted_wrt (<) (map timestamp frames) \<and>
         (\<forall>f\<in>set frames. \<not> js_ge (timestamp f) duration) \<and>
         js_ge (5 * real (length frames)) duration"
    by blast
next
  assume a: "canvas_context v \<and> loadedmetadata v = Inr (Fin d) \<and> (\<forall>t. \<exists>url. seek v t = Seeked url)"
  have "d / 5 \<le> real_of_int \<lceil>d / 5\<rceil>" by (rule le_of_int_ceiling)
  also have "\<dots> \<le> real (nat \<lceil>d / 5\<rceil>)" by simp
  finally have "d \<le> 5 * real (0 + nat \<lceil>d / 5\<rceil>)" by simp
  from captureFrame_total[OF _ this, of v "[]"] a
  show "\<exists>frames. extractFramesFromVideo (Suc (nat \<lceil>d / 5\<rceil>)) v = Some (Inr frames)"
    by (simp add: extractFramesFromVideo_def)
qed

theorem C6_witness:
  "extractFramesFromVideo 4 short_video = Some (Inr short_frames) \<and>
   map timestamp short_frames = [0, 5, 10] \<and>
   sorted_wrt (<) (map timestamp short_frames) \<and>
   js_ge (5 * real (length short_frames)) (Fin 12.5) \<and>
   (\<exists>frames. extractFramesFromVideo (Suc (nat \<lceil>12.5 / 5 :: real\<rceil>)) short_video =
      Some (Inr frames))"
proof -
  have m: "loadedmetadata short_video = Inr (Fin 12.5)"
    and c: "canvas_context short_video"
    and k: "\<forall>t. \<exists>url. seek short_video t = Seeked url"
    by (simp_all add: short_video_def)
  have ts: "map timestamp short_frames = [0, 5, 10]"
    by (simp add: short_frames_def upt_rec)
  from C6_sampled_every_five_seconds[of 4 short_video short_frames "12.5"] short_run m c k ts
  show ?thesis
    by auto
qed

text \<open>
  C7, as the code has it. The sampler has no cap: for a video of duration \<open>d\<close> it gives
  \<open>\<lceil>d / 5\<rceil>\<close> frames, which are at most 20 exactly when the video is at most 100
  seconds long. The cap of 20 frames is the handler's, which classifies the first twenty
  of the frames it is sent.
\<close>

theorem C7_frame_count_follows_duration:
  assumes "extractFramesFromVideo fuel v = Some (Inr frames)"
    and "loadedmetadata v = Inr (Fin d)"
  shows "length frames = nat \<lceil>d / 5\<rceil> \<and> (length frames \<le> 20 \<longleftrightarrow> d \<le> 100)"
proof -
  have n: "length frames = nat \<lceil>d / 5\<rceil>"
    using assms by (rule frame_count)
  have "nat \<lceil>d / 5\<rceil> \<le> 20 \<longleftrightarrow> \<lceil>d / 5\<rceil> \<le> 20" by simp
  also have "\<dots> \<longleftrightarrow> d / 5 \<le> 20" by (simp add: ceiling_le_iff)
  also have "\<dots> \<longleftrightarrow> d \<le> 100" by simp
  finally show ?thesis using n by simp
qed

theorem C7_witness:
  "extractFramesFromVideo 22 long_video = Some (Inr long_frames) \<and>
   loadedmetadata long_video = Inr (Fin 105) \<and>
   length long_frames = nat \<lceil>105 / 5 :: real\<rceil> \<and>
   (length long_frames \<le> 20 \<longleftrightarrow> (105 :: real) \<le> 100)"
proof -
  have m: "loadedmetadata long_video = Inr (Fin 105)"
    by (simp add: long_video_def)
  from C7_frame_count_follows_duration[OF long_run m] long_run m
  show ?thesis
    by simp
qed

text \<open>
  C7, as it is stated, fails for a video of 105 seconds: the sampler gives 21 frames, at
  0, 5, ..., 100 seconds.
\<close>

theorem C7_counterexample:
  "extractFramesFromVideo 22 long_video = Some (Inr long_frames) \<and>
   length long_frames = 21 \<and> \<not> length long_frames \<le> 20"
  by (simp add: long_run long_frames_def)

text \<open>
  C8. Both signals fire. The first of them stops the recorder: one payload is built, from
  the recorded data, and the promise settles once, with its data URL. When the video
  ends first, the timer finds the recorder inactive and does nothing (the test of line
  67). When the timer fires first, the handler of \<^verbatim>\<open>ended\<close> calls
  \<^verbatim>\<open>stop()\<close> on the inactive recorder without such a test: no second payload is
  built and the promise is not resolved again, but whether the call returns or throws is
  the browser's, and where it throws the error leaves the handler uncaught.
\<close>

theorem C8_second_stop_unguarded:
  "(uncaught (extractAudioFromVideo b [Timer, Ended]) =
      (case stop_inactive b of None \<Rightarrow> [] | Some err \<Rightarrow> [err])) \<and>
   uncaught (extractAudioFromVideo b [Ended, Timer]) = [] \<and>
   (\<forall>sigs \<in> {[Timer, Ended], [Ended, Timer]}.
      payloads (extractAudioFromVideo b sigs) = [[recorded b]] \<and>
      resolve_calls (extractAudioFromVideo b sigs) = 1 \<and>
      recorder (extractAudioFromVideo b sigs) = Inactive \<and>
      promise (extractAudioFromVideo b sigs) =
        Some (case readAsDataURL b [recorded b] of
                Inr result \<Rightarrow> Resolved (Some result) | Inl err \<Rightarrow> Rejected err))"
  by (simp add: ended_then_timer timer_then_ended one_payload_one_settlement
        first_signal_inactive split: option.splits)

theorem C8_witness:
  "uncaught (extractAudioFromVideo throwing_browser [Timer, Ended]) = [invalid_state] \<and>
   uncaught (extractAudioFromVideo silent_browser [Timer, Ended]) = [] \<and>
   uncaught (extractAudioFromVideo throwing_browser [Ended, Timer]) = [] \<and>
   payloads (extractAudioFromVideo throwing_browser [Timer, Ended]) = [[''QUJD'']] \<and>
   resolve_calls (extractAudioFromVideo throwing_browser [Timer, Ended]) = 1 \<and>
   promise (extractAudioFromVideo throwing_browser [Timer, Ended]) =
     Some (Resolved (Some ''data:audio/webm;base64,QUJD''))"
  using C8_second_stop_unguarded[of throwing_browser] C8_second_stop_unguarded[of silent_browser]
  by (simp add: throwing_browser_def silent_browser_def data_url_def)

text \<open>
  C9. Once the reader has cancelled the stream, whatever is left of the run makes no
  adapter call and adds no event: started at an iteration of the loop, at the
  classification stage or at the beginning of the handler, it stops at its first
  \<^verbatim>\<open>enqueue\<close>, which throws, as do the \<^verbatim>\<open>enqueue\<close> of the \<^verbatim>\<open>catch\<close>
  and the \<^verbatim>\<open>close\<close> of the \<^verbatim>\<open>finally\<close>; the state is left as the cancel left
  it. A call of \<open>analyzeFrame\<close> that had started before the cancel is awaited to its end,
  and no other follows it.
\<close>

theorem C9_cancelled_stream_stops_classification:
  "finally_block (catch_block (complete_run tr (analyze_loop e frames i slides (cancel st)))) =
     (Some already_closed, cancel st) \<and>
   finally_block (catch_block (classify_frames e frames tr (cancel st))) =
     (Some already_closed, cancel st) \<and>
   finally_block (catch_block (try_block e (cancel st))) = (Some already_closed, cancel st) \<and>
   analyze_calls (cancel st) = analyze_calls st \<and>
   transcribe_calls (cancel st) = transcribe_calls st \<and>
   events (cancel st) = events st"
proof -
  have "closed (cancel st)"
    by (simp add: cancel_def)
  from closed_stream_stops[OF this] show ?thesis
    by (simp add: cancel_def)
qed

theorem C9_witness:
  "analyze_calls (snd (finally_block (catch_block (complete_run ''hello''
      (analyze_loop example_env (JArr example_frames) 1
         [Slide (JStr ''data:image/png;base64,AAAA'') (JNum 0)] (cancel in_flight)))))) =
     [(0, JStr ''data:image/png;base64,AAAA'')] \<and>
   events (snd (finally_block (catch_block (complete_run ''hello''
      (analyze_loop example_env (JArr example_frames) 1
         [Slide (JStr ''data:image/png;base64,AAAA'') (JNum 0)] (cancel in_flight)))))) =
     [Progress TranscribingAudio, Progress AnalyzingFrames, Progress (AnalyzingFrame 1 (Fin 3))] \<and>
   fst (finally_block (catch_block (complete_run ''hello''
      (analyze_loop example_env (JArr example_frames) 1
         [Slide (JStr ''data:image/png;base64,AAAA'') (JNum 0)] (cancel in_flight))))) =
     Some already_closed"
  using C9_cancelled_stream_stops_classification[of "''hello''" example_env
      "JArr example_frames" 1 "[Slide (JStr ''data:image/png;base64,AAAA'') (JNum 0)]" in_flight]
  by (simp add: in_flight_def)

text \<open>
  C10. For a request body that can be destructured, the run is rejected with the
  missing-input error event exactly when \<^verbatim>\<open>audioDataUrl\<close> or \<^verbatim>\<open>frames\<close> is
  falsy. With a truthy \<^verbatim>\<open>audioDataUrl\<close> and the empty array for \<^verbatim>\<open>frames\<close> the
  run transcribes the audio, classifies nothing and completes with no slides; with the
  empty string for \<^verbatim>\<open>audioDataUrl\<close> it is rejected and nothing is transcribed.
\<close>

theorem C10_missing_means_falsy:
  assumes "request_json e = Inr body" and "\<not> nullish body"
  shows "(events (snd (POST e)) = [Error ''Missing audio or frames data''] \<longleftrightarrow>
            \<not> truthy (js_prop body ''audioDataUrl'') \<or> \<not> truthy (js_prop body ''frames'')) \<and>
         (truthy (js_prop body ''audioDataUrl'') \<and> js_prop body ''frames'' = JArr [] \<longrightarrow>
            POST e = (None,
              \<lparr>events = [Progress TranscribingAudio, Progress AnalyzingFrames,
                          Complete (transcribeAudio e (js_prop body ''audioDataUrl'')) []],
               closed = True,
               transcribe_calls = [js_prop body ''audioDataUrl''],
               analyze_calls = []\<rparr>)) \<and>
         (js_prop body ''audioDataUrl'' = JStr [] \<longrightarrow>
            events (snd (POST e)) = [Error ''Missing audio or frames data''] \<and>
            transcribe_calls (snd (POST e)) = [] \<and> analyze_calls (snd (POST e)) = [])"
proof -
  let ?a = "js_prop body ''audioDataUrl''" and ?f = "js_prop body ''frames''"
  have rej: "\<not> truthy ?a \<or> \<not> truthy ?f \<Longrightarrow>
      POST e = (Some already_closed,
           \<lparr>events = [Error ''Missing audio or frames data''], closed = True,
            transcribe_calls = [], analyze_calls = []\<rparr>)"
    by (rule missing_input_closes_twice[OF assms])
  have acc: "events (snd (POST e)) \<noteq> [Error ''Missing audio or frames data'']"
    if ok: "truthy ?a \<and> truthy ?f"
  proof -
    let ?st2 = "initial\<lparr>events := [Progress TranscribingAudio], transcribe_calls := [?a]\<rparr>"
    have tb: "try_block e initial = classify_frames e ?f (transcribeAudio e ?a) ?st2"
      using assms ok
      by (simp add: try_block_def destructure_def enqueue_def initial_def)
    have "\<not> closed ?st2" by (simp add: initial_def)
    from classify_frames_exit[OF this, of e ?f "transcribeAudio e ?a"]
    obtain ps t where "events (snd (POST e)) = events ?st2 @ ps @ [t]"
      unfolding POST_def tb by blast
    then show ?thesis by (simp add: initial_def)
  qed
  have one: "events (snd (POST e)) = [Error ''Missing audio or frames data''] \<longleftrightarrow>
            \<not> truthy ?a \<or> \<not> truthy ?f"
    using rej acc by (cases "truthy ?a \<and> truthy ?f") auto
  have two: "POST e = (None,
              \<lparr>events = [Progress TranscribingAudio, Progress AnalyzingFrames,
                          Complete (transcribeAudio e ?a) []],
               closed = True, transcribe_calls = [?a], analyze_calls = []\<rparr>)"
    if "truthy ?a \<and> ?f = JArr []"
    using POST_valid_array[OF assms(1,2), of "[]"] that by simp
  have three: "events (snd (POST e)) = [Error ''Missing audio or frames data''] \<and>
            transcribe_calls (snd (POST e)) = [] \<and> analyze_calls (snd (POST e)) = []"
    if "?a = JStr []"
    using rej that by simp
  from one two three show ?thesis by blast
qed

theorem C10_witness:
  "truthy (JArr []) \<and> \<not> truthy (JStr []) \<and>
   events (snd (POST empty_frames_env)) =
     [Progress TranscribingAudio, Progress AnalyzingFrames, Complete ''hello'' []] \<and>
   analyze_calls (snd (POST empty_frames_env)) = [] \<and>
   transcribe_calls (snd (POST empty_frames_env)) = [JStr ''data:audio/webm;base64,QUJD''] \<and>
   events (snd (POST empty_audio_env)) = [Error ''Missing audio or frames data''] \<and>
   transcribe_calls (snd (POST empty_audio_env)) = []"
proof -
  let ?b1 = "JObj [(''audioDataUrl'', JStr ''data:audio/webm;base64,QUJD''), (''frames'', JArr [])]"
  let ?b2 = "JObj [(''audioDataUrl'', JStr []), (''frames'', JArr example_frames)]"
  have h1: "request_json empty_frames_env = Inr ?b1"
    by (simp add: empty_frames_env_def)
  have h2: "request_json empty_audio_env = Inr ?b2"
    by (simp add: empty_audio_env_def)
  have n1: "\<not> nullish ?b1" and n2: "\<not> nullish ?b2"
    by simp_all
  have tr: "transcribeAudio empty_frames_env (JStr ''data:audio/webm;base64,QUJD'') = ''hello''"
    by code_simp
  from C10_missing_means_falsy[OF h1 n1] C10_missing_means_falsy[OF h2 n2] tr
  show ?thesis
    by simp
qed

end
